theory Spec2Isabelle
  imports Complex_Main "HOL-Library.Multiset" "HOL-Library.Word"
begin

section \<open>Result collection: data model (src/main.go, collectResults)\<close>

text \<open>
  The types \<open>neobench.WorkerResult\<close>, \<open>neobench.FailureGroup\<close> and
  \<open>neobench.Result\<close> are declared in package \<open>pkg/neobench\<close>, which is not part of
  the sources at hand; \<open>collectResults\<close> only shows which fields they have. The numeric
  field types are therefore type parameters: \<open>'c\<close> for the counters, \<open>'r\<close> for the
  rate (a float in the program, so no algebraic law is assumed for its addition) and
  \<open>'t\<close> for the value stored as \<open>FirstFailure\<close>.
\<close>

record ('c, 't) FailureGroup =
  Count :: 'c
  FirstFailure :: 't

text \<open>
  Modelled from the spec: \<open>hdrhistogram.Histogram\<close> is a library type outside the
  sources. Following the specification's data model it is the collection of samples
  recorded into it (a multiset of microsecond values); \<open>Merge\<close> adds the samples of the
  other histogram, and \<open>Import (Export h)\<close> constructs a new histogram holding the same
  samples.

  The program handles histograms through pointers and \<open>Merge\<close> mutates its receiver, so
  histograms live in a heap: an address is an index into the list of allocated
  histograms, allocation appends, and an address beyond the heap stands for the nil
  pointer, whose dereference panics.
\<close>

type_synonym addr = nat
type_synonym Histogram = "int multiset"
type_synonym heap = "Histogram list"

definition Import_Export :: "heap \<Rightarrow> addr \<Rightarrow> (addr \<times> heap) option" where
  "Import_Export h a = (if a < length h then Some (length h, h @ [h ! a]) else None)"

definition Merge :: "heap \<Rightarrow> addr \<Rightarrow> addr \<Rightarrow> heap option" where
  "Merge h tgt from =
     (if tgt < length h \<and> from < length h then Some (h[tgt := h ! tgt + h ! from]) else None)"

text \<open>
  A Go map is iterated in an unspecified order and holds each key once. A worker's
  \<open>FailedByErrorGroup\<close> map is the list of its entries in the order the \<open>range\<close> loop
  happens to visit them; the keys of a well-formed map are distinct.
\<close>

record ('c, 'r, 't) WorkerResult =
  Rate :: 'r
  Latencies :: addr
  Succeeded :: 'c
  Failed :: 'c
  FailedByErrorGroup :: "(string \<times> ('c, 't) FailureGroup) list"
  Error :: "string option"

record ('c, 'r, 't) Result =
  Scenario :: string
  TotalRate :: 'r
  TotalSucceeded :: 'c
  TotalFailed :: 'c
  TotalLatencies :: "addr option"
  TotalFailedByErrorGroup :: "string \<rightharpoonup> ('c, 't) FailureGroup"
  Workers :: "('c, 'r, 't) WorkerResult list"

text \<open>The three ways a call can end: it returns, it panics, or it blocks forever.\<close>

datatype 'a exec = Returns 'a | Panics | Blocks

section \<open>Result collection: the algorithm\<close>

text \<open>
  Lines 253-263: one entry of a worker's failure map is merged into the aggregate map.
\<close>

definition mergeGroup ::
  "(string \<rightharpoonup> ('c::plus, 't) FailureGroup) \<Rightarrow> string \<times> ('c, 't) FailureGroup
     \<Rightarrow> (string \<rightharpoonup> ('c, 't) FailureGroup)" where
  "mergeGroup tot entry =
     (case entry of (name, grp) \<Rightarrow>
        (case tot name of
           Some existing \<Rightarrow>
             tot(name \<mapsto> \<lparr>Count = Count existing + Count grp,
                               FirstFailure = FirstFailure existing\<rparr>)
         | None \<Rightarrow> tot(name \<mapsto> grp)))"

text \<open>
  The state of the loop of lines 239-264: the aggregate under construction, the
  pointer \<open>combinedHistogram\<close> (\<open>None\<close> is nil), the heap, and the messages handed
  to \<open>out.Errorf\<close> so far.
\<close>

record ('c, 'r, 't) collect_state =
  total :: "('c, 'r, 't) Result"
  combinedHistogram :: "addr option"
  hp :: heap
  errorf :: "string list"

definition processResult ::
  "('c::plus, 'r::plus, 't) collect_state \<Rightarrow> ('c, 'r, 't) WorkerResult
     \<Rightarrow> ('c, 'r, 't) collect_state option" where
  "processResult st res =
     (case Error res of
        Some e \<Rightarrow> Some (st\<lparr>errorf := errorf st @ [''Worker failed: '' @ e]\<rparr>)
      | None \<Rightarrow>
          (case (case combinedHistogram st of
                   None \<Rightarrow> Import_Export (hp st) (Latencies res)
                 | Some c \<Rightarrow> map_option (Pair c) (Merge (hp st) c (Latencies res))) of
             None \<Rightarrow> None
           | Some (c, h) \<Rightarrow>
               Some (st\<lparr>combinedHistogram := Some c, hp := h,
                  total := (total st)
                    \<lparr>TotalRate := TotalRate (total st) + Rate res,
                     TotalSucceeded := TotalSucceeded (total st) + Succeeded res,
                     TotalFailed := TotalFailed (total st) + Failed res,
                     TotalFailedByErrorGroup :=
                       foldl mergeGroup (TotalFailedByErrorGroup (total st))
                         (FailedByErrorGroup res)\<rparr>\<rparr>)))"

fun processResults ::
  "('c::plus, 'r::plus, 't) collect_state \<Rightarrow> ('c, 'r, 't) WorkerResult list
     \<Rightarrow> ('c, 'r, 't) collect_state option" where
  "processResults st [] = Some st"
| "processResults st (res # rest) =
     (case processResult st res of None \<Rightarrow> None | Some st' \<Rightarrow> processResults st' rest)"

text \<open>
  \<open>collectResults\<close>. The channel is the list of the values it will deliver, in order.
  \<open>make\<close> with a negative capacity panics; receiving more values than the channel
  ever holds blocks forever. The result pairs the \<open>out.Errorf\<close> messages and the final
  heap with the returned error (\<open>Inl\<close>) or \<open>Result\<close> (\<open>Inr\<close>).
\<close>

definition collectResults ::
  "string \<Rightarrow> int \<Rightarrow> ('c::{plus,zero}, 'r::{plus,zero}, 't) WorkerResult list \<Rightarrow> heap
     \<Rightarrow> (string list \<times> heap \<times> (string + ('c, 'r, 't) Result)) exec" where
  "collectResults scenario concurrency resultChan h =
     (if concurrency < 0 then Panics
      else if length resultChan < nat concurrency then Blocks
      else
        let results = take (nat concurrency) resultChan;
            tot = \<lparr>Scenario = scenario, TotalRate = 0, TotalSucceeded = 0, TotalFailed = 0,
                   TotalLatencies = None, TotalFailedByErrorGroup = Map.empty,
                   Workers = results\<rparr>
        in (case processResults
                   \<lparr>total = tot, combinedHistogram = None, hp = h, errorf = []\<rparr> results of
              None \<Rightarrow> Panics
            | Some st \<Rightarrow>
                (case combinedHistogram st of
                   None \<Rightarrow> Returns (errorf st, hp st, Inl ''all workers failed'')
                 | Some c \<Rightarrow>
                     Returns (errorf st, hp st,
                              Inr ((total st)\<lparr>TotalLatencies := Some c\<rparr>)))))"


text \<open>Helpers for stating the properties of \<open>collectResults\<close>.\<close>

definition nonfatal :: "('c, 'r, 't) WorkerResult list \<Rightarrow> ('c, 'r, 't) WorkerResult list" where
  "nonfatal rs = filter (\<lambda>r. Error r = None) rs"

definition mergedSamples :: "heap \<Rightarrow> ('c, 'r, 't) WorkerResult list \<Rightarrow> Histogram" where
  "mergedSamples h rs = (\<Sum>r\<leftarrow>nonfatal rs. h ! Latencies r)"

definition groupsFor :: "string \<Rightarrow> (string \<times> 'g) list \<Rightarrow> 'g list" where
  "groupsFor k es = map snd (filter (\<lambda>e. fst e = k) es)"

definition returnedResult ::
  "(string list \<times> heap \<times> (string + ('c, 'r, 't) Result)) exec \<Rightarrow> ('c, 'r, 't) Result option" where
  "returnedResult e = (case e of Returns (_, _, Inr t) \<Rightarrow> Some t | _ \<Rightarrow> None)"

definition failureMessages :: "('c, 'r, 't) WorkerResult list \<Rightarrow> string list" where
  "failureMessages rs =
     map (\<lambda>r. ''Worker failed: '' @ the (Error r)) (filter (\<lambda>r. Error r \<noteq> None) rs)"

definition returnedGroup ::
  "(string list \<times> heap \<times> (string + ('c, 'r, 't) Result)) exec \<Rightarrow> string
     \<Rightarrow> ('c, 't) FailureGroup option" where
  "returnedGroup e k =
     (case returnedResult e of None \<Rightarrow> None | Some t \<Rightarrow> TotalFailedByErrorGroup t k)"

definition returnedLatencies ::
  "(string list \<times> heap \<times> (string + ('c, 'r, 't) Result)) exec \<Rightarrow> addr option" where
  "returnedLatencies e = (case returnedResult e of None \<Rightarrow> None | Some t \<Rightarrow> TotalLatencies t)"

text \<open>
  The samples of all workers without a fatal error, as one collection that does not
  depend on the order of the workers.
\<close>

definition unionOfSamples :: "heap \<Rightarrow> ('c, 'r, 't) WorkerResult list \<Rightarrow> Histogram" where
  "unionOfSamples h rs =
     sum_mset (image_mset (\<lambda>r. h ! Latencies r) (filter_mset (\<lambda>r. Error r = None) (mset rs)))"

definition returnedHeap ::
  "(string list \<times> heap \<times> (string + ('c, 'r, 't) Result)) exec \<Rightarrow> heap option" where
  "returnedHeap e = (case e of Returns (_, h, _) \<Rightarrow> Some h | _ \<Rightarrow> None)"

section \<open>float64 and time.Duration\<close>

text \<open>
  A float64 is a sign and a magnitude, an infinity with its sign, or NaN. The magnitude
  of a well-formed value is one of the non-negative rationals that binary64 represents;
  the sign is \<open>True\<close> for negative values, so \<open>Finite True 0\<close> is the negative zero.
\<close>

datatype float64 = Finite bool rat | Infinite bool | NaN

function bitlen :: "int \<Rightarrow> int" where
  "bitlen n = (if n \<le> 0 then 0 else 1 + bitlen (n div 2))"
  by pat_completeness auto
termination
  by (relation "measure nat") auto

definition pow2 :: "int \<Rightarrow> rat" where
  "pow2 e = (if 0 \<le> e then 2 ^ nat e else 1 / 2 ^ nat (- e))"

text \<open>The binary exponent \<open>\<lfloor>log\<^sub>2 m\<rfloor>\<close> of a positive rational.\<close>

definition ilog2 :: "rat \<Rightarrow> int" where
  "ilog2 m =
     (case quotient_of m of (p, q) \<Rightarrow>
        (let e = bitlen p - bitlen q
         in if pow2 e \<le> m then e else e - 1))"

definition round_half_even :: "rat \<Rightarrow> int" where
  "round_half_even x =
     (let f = \<lfloor>x\<rfloor>; d = x - of_int f
      in if d < 1 / 2 then f else if 1 / 2 < d then f + 1 else if even f then f else f + 1)"

text \<open>
  Rounding a positive magnitude to the nearest binary64 magnitude, ties to even: 53
  significant bits, the exponent of a subnormal fixed at \<open>-1022\<close>; \<open>None\<close> when the
  rounded magnitude exceeds the largest finite value (overflow to infinity).
\<close>

definition round64 :: "rat \<Rightarrow> rat option" where
  "round64 m =
     (let e = max (ilog2 m) (- 1022);
          q = pow2 (e - 52);
          r = of_int (round_half_even (m / q)) * q
      in if pow2 1024 \<le> r then None else Some r)"

definition float64_of :: "bool \<Rightarrow> rat \<Rightarrow> float64" where
  "float64_of s m =
     (if m = 0 then Finite s 0
      else case round64 m of None \<Rightarrow> Infinite s | Some r \<Rightarrow> Finite s r)"

definition float64_of_int :: "int \<Rightarrow> float64" where
  "float64_of_int n = float64_of (n < 0) (of_int \<bar>n\<bar>)"

fun fdiv :: "float64 \<Rightarrow> float64 \<Rightarrow> float64" where
  "fdiv NaN _ = NaN"
| "fdiv _ NaN = NaN"
| "fdiv (Infinite s) (Infinite t) = NaN"
| "fdiv (Infinite s) (Finite t y) = Infinite (s \<noteq> t)"
| "fdiv (Finite s x) (Infinite t) = Finite (s \<noteq> t) 0"
| "fdiv (Finite s x) (Finite t y) =
     (if y = 0 then (if x = 0 then NaN else Infinite (s \<noteq> t))
      else float64_of (s \<noteq> t) (x / y))"

fun fadd :: "float64 \<Rightarrow> float64 \<Rightarrow> float64" where
  "fadd NaN _ = NaN"
| "fadd _ NaN = NaN"
| "fadd (Infinite s) (Infinite t) = (if s = t then Infinite s else NaN)"
| "fadd (Infinite s) (Finite t y) = Infinite s"
| "fadd (Finite s x) (Infinite t) = Infinite t"
| "fadd (Finite s x) (Finite t y) =
     (let v = (if s then - x else x) + (if t then - y else y)
      in if v = 0 then Finite (s \<and> t) 0 else float64_of (v < 0) \<bar>v\<bar>)"

instantiation float64 :: "{plus, zero}"
begin
definition zero_float64 :: float64 where "zero_float64 = Finite False 0"
definition plus_float64 :: "float64 \<Rightarrow> float64 \<Rightarrow> float64" where "plus_float64 = fadd"
instance ..
end

text \<open>
  The conversion \<open>time.Duration(f)\<close> of a float64 to the int64 behind a duration
  truncates towards zero. For NaN, an infinity or a value outside the int64 range the
  language leaves the result to the implementation: \<open>None\<close>.
\<close>

definition Duration_of_float64 :: "float64 \<Rightarrow> int option" where
  "Duration_of_float64 f =
     (case f of
        Finite s m \<Rightarrow>
          (let v = (if s then - \<lfloor>m\<rfloor> else \<lfloor>m\<rfloor>)
           in if - (2 ^ 63) \<le> v \<and> v < 2 ^ 63 then Some v else None)
      | _ \<Rightarrow> None)"

text \<open>\<open>time.Duration\<close> is an int64 count of nanoseconds; its arithmetic wraps around.\<close>

type_synonym Duration = "64 word"

definition Microsecond :: Duration where
  "Microsecond = 1000"

section \<open>Pacing interval (src/main.go, runBenchmark, lines 183-205)\<close>

definition ratePerWorkerDuration :: "bool \<Rightarrow> int \<Rightarrow> float64 \<Rightarrow> Duration option" where
  "ratePerWorkerDuration latencyMode numClients rate =
     (if latencyMode then
        (let ratePerWorkerPerSecond = fdiv rate (float64_of_int numClients)
         in map_option (\<lambda>d. word_of_int d * Microsecond)
              (Duration_of_float64
                 (fdiv (float64_of_int (1000 * 1000)) ratePerWorkerPerSecond)))
      else Some 0)"

text \<open>
  The loop of lines 191-205 starts worker \<open>i\<close> with the interval, for every
  \<open>i < numClients\<close>; before it, \<open>make\<close> of the result channel panics on a negative
  size. The list holds the worker ids with the interval each one is handed. What the
  workers then do concurrently is outside this model.
\<close>

definition startWorkers :: "int \<Rightarrow> Duration \<Rightarrow> (nat \<times> Duration) list exec" where
  "startWorkers numClients d =
     (if numClients < 0 then Panics else Returns (map (\<lambda>i. (i, d)) [0..<nat numClients]))"

definition runBenchmark_workers ::
  "bool \<Rightarrow> int \<Rightarrow> float64 \<Rightarrow> (nat \<times> Duration) list exec option" where
  "runBenchmark_workers latencyMode numClients rate =
     map_option (startWorkers numClients) (ratePerWorkerDuration latencyMode numClients rate)"

text \<open>
  The specification's words for the open-loop interval: one second (\<open>10\<^sup>9\<close> ns)
  divided by the per-worker rate, the total rate divided by the number of workers.
\<close>

definition spec_interval_ns :: "rat \<Rightarrow> int \<Rightarrow> rat" where
  "spec_interval_ns rate numWorkers = 10 ^ 9 / (rate / of_int numWorkers)"


section \<open>Program start-up (src/main.go, main)\<close>

subsection \<open>Library functions\<close>

text \<open>
  \<open>strings.ToLower\<close> on the bytes of a string: the ASCII capitals become small
  letters. On other bytes the library works by Unicode code point; no code point
  outside ASCII has a lower case made of the letters and digits the encryption switch
  compares with, so the switch decides as it does in the program.
\<close>

definition toLowerChar :: "char \<Rightarrow> char" where
  "toLowerChar c =
     (let n = of_char c :: int in if 65 \<le> n \<and> n \<le> 90 then char_of (n + 32) else c)"

definition ToLower :: "string \<Rightarrow> string" where
  "ToLower s = map toLowerChar s"

text \<open>\<open>strings.Split s sep\<close> for a separator of one byte.\<close>

fun Split :: "string \<Rightarrow> char \<Rightarrow> string list" where
  "Split [] sep = [[]]"
| "Split (c # cs) sep =
     (if c = sep then [] # Split cs sep
      else (case Split cs sep of [] \<Rightarrow> [[c]] | p # ps \<Rightarrow> (c # p) # ps))"

text \<open>
  \<open>strconv.ParseInt s 10 64\<close>: an optional sign, then one or more decimal digits,
  and a value within the int64 range; anything else is an error (\<open>None\<close>).
  \<open>strconv.Atoi\<close> is the same function for the 64-bit \<open>int\<close>.
\<close>

definition digitVal :: "char \<Rightarrow> int option" where
  "digitVal c = (let n = of_char c :: int in if 48 \<le> n \<and> n \<le> 57 then Some (n - 48) else None)"

fun parseDigits :: "string \<Rightarrow> int \<Rightarrow> int option" where
  "parseDigits [] acc = Some acc"
| "parseDigits (c # cs) acc =
     (case digitVal c of None \<Rightarrow> None | Some d \<Rightarrow> parseDigits cs (10 * acc + d))"

definition ParseInt64 :: "string \<Rightarrow> int option" where
  "ParseInt64 s =
     (let (neg, ds) =
            (case s of
               [] \<Rightarrow> (False, s)
             | c # cs \<Rightarrow>
                 if c = CHR ''-'' then (True, cs)
                 else if c = CHR ''+'' then (False, cs) else (False, s))
      in if ds = [] then None
         else (case parseDigits ds 0 of
                 None \<Rightarrow> None
               | Some n \<Rightarrow>
                   (let v = (if neg then - n else n)
                    in if - (2 ^ 63) \<le> v \<and> v < 2 ^ 63 then Some v else None)))"

definition Atoi :: "string \<Rightarrow> int option" where
  "Atoi s = ParseInt64 s"

subsection \<open>Flags, collaborators and the trace of a run\<close>

text \<open>The package-level flag variables, as \<open>pflag.Parse\<close> leaves them.\<close>

record flags =
  fInitMode :: bool
  fLatencyMode :: bool
  fScale :: int
  fClients :: int
  fRate :: float64
  fAddress :: string
  fUser :: string
  fPassword :: string
  fEncryptionMode :: string
  fDuration :: int
  fVariables :: "(string \<times> string) list"
  fWorkloads :: "string list"
  fOutputFormat :: string

datatype EncryptionMode = EncryptionAuto | EncryptionOn | EncryptionOff

text \<open>A variable of the workload: the \<open>interface{}\<close> holds an int64 or a float64.\<close>

datatype variable = IntVar int | FloatVar float64

text \<open>
  What \<open>main\<close> calls outside itself: the functions of package \<open>neobench\<close>, the file
  system and \<open>strconv.ParseFloat\<close> are not in the sources, so each is a parameter giving
  the error (\<open>Inl\<close>, or \<open>Some\<close> for a function returning only an error) or the value of
  a call. \<open>'s\<close> is the type \<open>neobench.Script\<close>. The last field is the error that
  \<open>runBenchmark\<close> returns to \<open>main\<close>.
\<close>

record 's world =
  NewOutput :: "string \<Rightarrow> string option"
  NewDriver :: "string \<Rightarrow> string \<Rightarrow> string \<Rightarrow> EncryptionMode \<Rightarrow> string option"
  ParseFloat :: "string \<Rightarrow> string + float64"
  ReadFile :: "string \<Rightarrow> string + string"
  TPCBLike :: string
  Parse :: "string \<Rightarrow> string \<Rightarrow> 64 word \<Rightarrow> string + 's"
  InitTPCBLike :: "int \<Rightarrow> string option"
  runBenchmark_error :: "string option"

text \<open>The calls a run makes, in order, and how it ends.\<close>

datatype event =
    NewOutputCalled string
  | NewDriverCalled string string string EncryptionMode
  | ReadFileCalled string
  | ParseCalled string string "64 word"
  | InitTPCBLikeCalled int
  | RunBenchmarkCalled bool int float64
  | ErrorfCalled string
  | ReportLatencyCalled
  | ReportThroughputCalled

datatype ending = Fatal string | Exit int

type_synonym 'a step = "event list \<times> (string + 'a)"

text \<open>
  Sequencing: an error of the first step is the \<open>log.Fatal\<close> that ends the run; otherwise
  the second step runs and its calls follow those of the first.
\<close>

definition andThen :: "'a step \<Rightarrow> ('a \<Rightarrow> 'b step) \<Rightarrow> 'b step" where
  "andThen m f =
     (case m of
        (evs, Inl e) \<Rightarrow> (evs, Inl e)
      | (evs, Inr a) \<Rightarrow> (case f a of (evs', r) \<Rightarrow> (evs @ evs', r)))"

subsection \<open>The stages of main\<close>

text \<open>Lines 77-87: the switch on the lower-cased flag; \<open>None\<close> is the default branch.\<close>

definition encryptionMode :: "string \<Rightarrow> EncryptionMode option" where
  "encryptionMode flag =
     (let l = ToLower flag
      in if l = ''auto'' then Some EncryptionAuto
         else if l = ''true'' \<or> l = ''yes'' \<or> l = ''y'' \<or> l = ''1'' then Some EncryptionOn
         else if l = ''false'' \<or> l = ''no'' \<or> l = ''n'' \<or> l = ''0'' then Some EncryptionOff
         else None)"

text \<open>
  Lines 94-108: the variables, starting from \<open>scale\<close>. The defines are the entries of
  the map \<open>fVariables\<close> in the order the \<open>range\<close> loop visits them.
\<close>

fun defineVariables ::
  "(string \<Rightarrow> string + float64) \<Rightarrow> (string \<rightharpoonup> variable) \<Rightarrow> (string \<times> string) list
     \<Rightarrow> string + (string \<rightharpoonup> variable)" where
  "defineVariables pf variables [] = Inr variables"
| "defineVariables pf variables ((k, v) # rest) =
     (case ParseInt64 v of
        Some intVal \<Rightarrow> defineVariables pf (variables(k \<mapsto> IntVar intVal)) rest
      | None \<Rightarrow>
          (case pf v of
             Inr floatVal \<Rightarrow> defineVariables pf (variables(k \<mapsto> FloatVar floatVal)) rest
           | Inl err \<Rightarrow>
               Inl (''-D and --define values must be integers or floats, failing to parse '' @
                    [CHR 0x27] @ v @ [CHR 0x27] @ '': '' @ err)))"

definition seedVariables :: "'s world \<Rightarrow> flags \<Rightarrow> string + (string \<rightharpoonup> variable)" where
  "seedVariables w fl =
     defineVariables (ParseFloat w) (Map.empty(''scale'' \<mapsto> IntVar (fScale fl))) (fVariables fl)"

text \<open>Lines 284-295.\<close>

definition createScript :: "'s world \<Rightarrow> string \<Rightarrow> 64 word \<Rightarrow> 's step" where
  "createScript w path weight =
     (if path = ''builtin:tpcb-like''
      then ([ParseCalled ''builtin:tpcp-like'' (TPCBLike w) weight],
            Parse w ''builtin:tpcp-like'' (TPCBLike w) weight)
      else (case ReadFile w path of
              Inl err \<Rightarrow>
                ([ReadFileCalled path],
                 Inl (''failed to read workload file at '' @ path @ '': '' @ err))
            | Inr scriptContent \<Rightarrow>
                ([ReadFileCalled path, ParseCalled path scriptContent weight],
                 Parse w path scriptContent weight)))"

text \<open>
  Lines 112-120: the path and the weight of one workload argument. The conversion
  \<open>uint(weight)\<close> of line 121 is \<open>word_of_int\<close>.
\<close>

definition workloadWeight :: "string \<Rightarrow> string + (string \<times> int)" where
  "workloadWeight path =
     (let parts = Split path (CHR ''@'')
      in if length parts > 1
         then (case Atoi (parts ! 1) of
                 None \<Rightarrow>
                   Inl (''Failed to parse weight; value after @ symbol for workload weight must be an integer: '' @ path)
               | Some weight \<Rightarrow> Inr (parts ! 0, weight))
         else Inr (path, 1))"

definition loadScript :: "'s world \<Rightarrow> string \<Rightarrow> 's step" where
  "loadScript w path =
     (case workloadWeight path of
        Inl e \<Rightarrow> ([], Inl e)
      | Inr (p, weight) \<Rightarrow> createScript w p (word_of_int weight))"

fun loadScripts :: "'s world \<Rightarrow> string list \<Rightarrow> 's list \<Rightarrow> 's list step" where
  "loadScripts w [] scripts = ([], Inr scripts)"
| "loadScripts w (path # rest) scripts =
     (case loadScript w path of
        (evs, Inl e) \<Rightarrow> (evs, Inl e)
      | (evs, Inr script) \<Rightarrow>
          (case loadScripts w rest (scripts @ [script]) of (evs', r) \<Rightarrow> (evs @ evs', r)))"

text \<open>Lines 275-282.\<close>

fun initWorkload :: "'s world \<Rightarrow> string list \<Rightarrow> int \<Rightarrow> unit step" where
  "initWorkload w [] scale = ([], Inr ())"
| "initWorkload w (path # paths) scale =
     (if path = ''builtin:tpcb-like''
      then ([InitTPCBLikeCalled scale],
            (case InitTPCBLike w scale of Some e \<Rightarrow> Inl e | None \<Rightarrow> Inr ()))
      else initWorkload w paths scale)"

text \<open>
  \<open>main\<close>, lines 72-132: the output, the encryption mode, the driver, the variables and
  the scripts, which make up the workload. An error at any of them is a \<open>log.Fatal\<close>.
\<close>

definition startup :: "'s world \<Rightarrow> flags \<Rightarrow> ((string \<rightharpoonup> variable) \<times> 's list) step" where
  "startup w fl =
     andThen ([NewOutputCalled (fOutputFormat fl)],
              (case NewOutput w (fOutputFormat fl) of Some e \<Rightarrow> Inl e | None \<Rightarrow> Inr ()))
     (\<lambda>_. andThen ([],
              (case encryptionMode (fEncryptionMode fl) of
                 None \<Rightarrow>
                   Inl (''Invalid encryption mode '' @ [CHR 0x27] @ fEncryptionMode fl @ [CHR 0x27]
                        @ '', needs to be one of 'auto', 'true' or 'false'' @ [CHR 0x27])
               | Some m \<Rightarrow> Inr m))
     (\<lambda>encMode. andThen
              ([NewDriverCalled (fAddress fl) (fUser fl) (fPassword fl) encMode],
               (case NewDriver w (fAddress fl) (fUser fl) (fPassword fl) encMode of
                  Some e \<Rightarrow> Inl e | None \<Rightarrow> Inr ()))
     (\<lambda>_. andThen ([], seedVariables w fl)
     (\<lambda>variables. andThen (loadScripts w (fWorkloads fl) [])
     (\<lambda>scripts. ([], Inr (variables, scripts)))))))"

text \<open>
  \<open>main\<close>, lines 134-157: the initialisation when it is asked for, then the benchmark.
  Both branches on \<open>fLatencyMode\<close> call \<open>runBenchmark\<close> with the same arguments and
  differ in the report. The result is the trace of calls and the value that decides how
  the run ends: the message of a \<open>log.Fatal\<close>, or the code given to \<open>os.Exit\<close>.
\<close>

definition main_steps :: "'s world \<Rightarrow> flags \<Rightarrow> int step" where
  "main_steps w fl =
     andThen (startup w fl)
     (\<lambda>wrk. andThen
              (if fInitMode fl then initWorkload w (fWorkloads fl) (fScale fl) else ([], Inr ()))
     (\<lambda>_. (case runBenchmark_error w of
              Some e \<Rightarrow>
                ([RunBenchmarkCalled (fLatencyMode fl) (fClients fl) (fRate fl), ErrorfCalled e],
                 Inr 1)
            | None \<Rightarrow>
                ([RunBenchmarkCalled (fLatencyMode fl) (fClients fl) (fRate fl),
                  if fLatencyMode fl then ReportLatencyCalled else ReportThroughputCalled],
                 Inr 0))))"

definition main :: "'s world \<Rightarrow> flags \<Rightarrow> event list \<times> ending" where
  "main w fl =
     (case main_steps w fl of
        (evs, Inl e) \<Rightarrow> (evs, Fatal e)
      | (evs, Inr code) \<Rightarrow> (evs, Exit code))"


section \<open>Notions used to state the properties\<close>

text \<open>
  Equality up to the case of ASCII letters, against a text written in small letters:
  each byte is the expected one or its capital.
\<close>

definition toUpperChar :: "char \<Rightarrow> char" where
  "toUpperChar c =
     (let n = of_char c :: int in if 97 \<le> n \<and> n \<le> 122 then char_of (n - 32) else c)"

definition equalFold :: "string \<Rightarrow> string \<Rightarrow> bool" where
  "equalFold s t = list_all2 (\<lambda>a b. a = b \<or> a = toUpperChar b) s t"

text \<open>The decimal numeral of a non-negative integer.\<close>

function decimal :: "int \<Rightarrow> string" where
  "decimal n =
     (if n < 10 then [char_of (48 + n)] else decimal (n div 10) @ [char_of (48 + n mod 10)])"
  by pat_completeness auto
termination
  by (relation "measure nat") auto

text \<open>The events that parse a script, start the workers or initialise the dataset.\<close>

fun startsWorkers :: "event \<Rightarrow> bool" where
  "startsWorkers (RunBenchmarkCalled l c r) = True"
| "startsWorkers _ = False"

fun readsScript :: "event \<Rightarrow> bool" where
  "readsScript (ReadFileCalled p) = True"
| "readsScript (ParseCalled n c w) = True"
| "readsScript _ = False"

fun connects :: "event \<Rightarrow> bool" where
  "connects (NewDriverCalled a u p m) = True"
| "connects _ = False"

fun initialises :: "event \<Rightarrow> bool" where
  "initialises (InitTPCBLikeCalled s) = True"
| "initialises _ = False"

text \<open>A text without ASCII capitals.\<close>

definition noCapitals :: "string \<Rightarrow> bool" where
  "noCapitals t = (\<forall>b\<in>set t. \<not> (65 \<le> (of_char b :: int) \<and> (of_char b :: int) \<le> 90))"

text \<open>The calls of the last stage of \<open>main\<close>: the benchmark and its report.\<close>

definition benchmarkEvents :: "'s world \<Rightarrow> flags \<Rightarrow> event list" where
  "benchmarkEvents w fl =
     (case runBenchmark_error w of
        Some e \<Rightarrow> [RunBenchmarkCalled (fLatencyMode fl) (fClients fl) (fRate fl), ErrorfCalled e]
      | None \<Rightarrow> [RunBenchmarkCalled (fLatencyMode fl) (fClients fl) (fRate fl),
                 if fLatencyMode fl then ReportLatencyCalled else ReportThroughputCalled])"

section \<open>Sample inputs\<close>

text \<open>
  A sample environment: every collaborator succeeds, one script file exists, a script is
  represented by the name and weight it was parsed with, and \<open>ParseFloat\<close> is given on
  the one text the examples use.
\<close>

definition sample_world :: "(string \<times> 64 word) world" where
  "sample_world =
     \<lparr>NewOutput = (\<lambda>_. None),
      NewDriver = (\<lambda>_ _ _ _. None),
      ParseFloat = (\<lambda>s. if s = ''2.5'' then Inr (Finite False (5 / 2)) else Inl ''invalid syntax''),
      ReadFile = (\<lambda>p. if p = ''custom.script'' then Inr ''RETURN 1;'' else Inl ''no such file''),
      TPCBLike = ''RETURN 0;'',
      Parse = (\<lambda>name content weight. Inr (name, weight)),
      InitTPCBLike = (\<lambda>_. None),
      runBenchmark_error = None\<rparr>"

definition sample_flags :: flags where
  "sample_flags =
     \<lparr>fInitMode = False, fLatencyMode = False, fScale = 1, fClients = 1,
      fRate = Finite False 1, fAddress = ''neo4j://localhost:7687'', fUser = ''neo4j'',
      fPassword = ''neo4j'', fEncryptionMode = ''auto'', fDuration = 60, fVariables = [],
      fWorkloads = [''builtin:tpcb-like''], fOutputFormat = ''auto''\<rparr>"

text \<open>
  Three worker results over a heap of two histograms: two workers that ended normally,
  both with failures of the signature \<open>boom\<close>, and one that ended with a fatal error
  and has no histogram (its pointer is nil).
  Modelled from the spec: \<open>FirstFailure\<close> is a timestamp, here an integer.
\<close>

definition sample_heap :: heap where
  "sample_heap = [{#100, 250#}, {#90#}]"

definition worker_a :: "(64 word, float64, int) WorkerResult" where
  "worker_a =
     \<lparr>Rate = Finite False 5, Latencies = 0, Succeeded = 2, Failed = 1,
      FailedByErrorGroup = [(''boom'', \<lparr>Count = 1, FirstFailure = 50\<rparr>)], Error = None\<rparr>"

definition worker_b :: "(64 word, float64, int) WorkerResult" where
  "worker_b =
     \<lparr>Rate = Finite False 3, Latencies = 1, Succeeded = 1, Failed = 2,
      FailedByErrorGroup = [(''boom'', \<lparr>Count = 2, FirstFailure = 30\<rparr>)], Error = None\<rparr>"

definition worker_c :: "(64 word, float64, int) WorkerResult" where
  "worker_c =
     \<lparr>Rate = Finite False 0, Latencies = 2, Succeeded = 0, Failed = 0,
      FailedByErrorGroup = [], Error = Some ''connection refused''\<rparr>"


definition sample_total :: "(64 word, float64, int) Result" where
  "sample_total =
     \<lparr>Scenario = ''s'', TotalRate = Finite False 8, TotalSucceeded = 3, TotalFailed = 3,
      TotalLatencies = Some 2,
      TotalFailedByErrorGroup = [''boom'' \<mapsto> \<lparr>Count = 3, FirstFailure = 50\<rparr>],
      Workers = [worker_a, worker_c, worker_b]\<rparr>"

section \<open>Lemmas: the loop of collectResults\<close>

lemma processResult_fatal:
  "Error res = Some e \<Longrightarrow> processResult st res = Some (st\<lparr>errorf := errorf st @ [''Worker failed: '' @ e]\<rparr>)"
  by (simp add: processResult_def)

lemma processResults_total:
  "processResults st rs = Some st' \<Longrightarrow>
     TotalRate (total st') = foldl (+) (TotalRate (total st)) (map Rate (nonfatal rs)) \<and>
     TotalSucceeded (total st') = foldl (+) (TotalSucceeded (total st)) (map Succeeded (nonfatal rs)) \<and>
     TotalFailed (total st') = foldl (+) (TotalFailed (total st)) (map Failed (nonfatal rs)) \<and>
     TotalFailedByErrorGroup (total st') =
       foldl mergeGroup (TotalFailedByErrorGroup (total st)) (concat (map FailedByErrorGroup (nonfatal rs))) \<and>
     Workers (total st') = Workers (total st) \<and> Scenario (total st') = Scenario (total st)"
proof (induction rs arbitrary: st)
  case Nil
  then show ?case by (simp add: nonfatal_def)
next
  case (Cons r rs)
  from Cons.prems obtain st1 where s1: "processResult st r = Some st1"
    and s2: "processResults st1 rs = Some st'"
    by (auto split: option.splits)
  note IH = Cons.IH [OF s2]
  show ?case
  proof (cases "Error r")
    case None
    with s1 have "total st1 = (total st)
                    \<lparr>TotalRate := TotalRate (total st) + Rate r,
                     TotalSucceeded := TotalSucceeded (total st) + Succeeded r,
                     TotalFailed := TotalFailed (total st) + Failed r,
                     TotalFailedByErrorGroup :=
                       foldl mergeGroup (TotalFailedByErrorGroup (total st))
                         (FailedByErrorGroup r)\<rparr>"
      by (auto simp: processResult_def split: option.splits)
    with IH None show ?thesis by (simp add: nonfatal_def)
  next
    case (Some e)
    with s1 have "total st1 = total st" by (auto simp: processResult_def)
    with IH Some show ?thesis by (simp add: nonfatal_def)
  qed
qed

lemma processResults_merge_into:
  assumes "combinedHistogram st = Some c" "c < length (hp st)"
      and "\<forall>r\<in>set rs. Error r = None \<longrightarrow> Latencies r < length (hp st) \<and> Latencies r \<noteq> c"
  shows "\<exists>st'. processResults st rs = Some st' \<and> combinedHistogram st' = Some c \<and>
           hp st' = (hp st)[c := hp st ! c + mergedSamples (hp st) rs]"
  using assms
proof (induction rs arbitrary: st)
  case Nil
  then show ?case by (simp add: mergedSamples_def nonfatal_def)
next
  case (Cons r rs)
  show ?case
  proof (cases "Error r")
    case (Some e)
    let ?st1 = "st\<lparr>errorf := errorf st @ [''Worker failed: '' @ e]\<rparr>"
    have "\<exists>st'. processResults ?st1 rs = Some st' \<and> combinedHistogram st' = Some c \<and>
           hp st' = (hp ?st1)[c := hp ?st1 ! c + mergedSamples (hp ?st1) rs]"
      by (rule Cons.IH) (use Cons.prems in auto)
    with Some show ?thesis
      by (simp add: processResult_fatal mergedSamples_def nonfatal_def)
  next
    case None
    from Cons.prems None have a: "Latencies r < length (hp st)" "Latencies r \<noteq> c" by auto
    let ?h1 = "(hp st)[c := hp st ! c + hp st ! Latencies r]"
    obtain st1 where s1: "processResult st r = Some st1" "combinedHistogram st1 = Some c" "hp st1 = ?h1"
      using None a Cons.prems(1,2) by (simp add: processResult_def Merge_def)
    have "\<exists>st'. processResults st1 rs = Some st' \<and> combinedHistogram st' = Some c \<and>
           hp st' = (hp st1)[c := hp st1 ! c + mergedSamples (hp st1) rs]"
      by (rule Cons.IH) (use Cons.prems s1 in auto)
    moreover have "mergedSamples ?h1 rs = mergedSamples (hp st) rs"
      unfolding mergedSamples_def using Cons.prems(3)
      by (intro arg_cong [where f = sum_list] map_cong) (auto simp: nonfatal_def)
    ultimately show ?thesis using s1 None Cons.prems(2)
      by (simp add: mergedSamples_def nonfatal_def add.assoc)
  qed
qed

lemma processResults_fresh:
  assumes "combinedHistogram st = None"
      and "\<forall>r\<in>set rs. Error r = None \<longrightarrow> Latencies r < length (hp st)"
  shows "\<exists>st'. processResults st rs = Some st' \<and>
           (if nonfatal rs = [] then combinedHistogram st' = None \<and> hp st' = hp st
            else combinedHistogram st' = Some (length (hp st)) \<and>
                 hp st' = hp st @ [mergedSamples (hp st) rs])"
  using assms
proof (induction rs arbitrary: st)
  case Nil
  then show ?case by (simp add: nonfatal_def)
next
  case (Cons r rs)
  show ?case
  proof (cases "Error r")
    case (Some e)
    let ?st1 = "st\<lparr>errorf := errorf st @ [''Worker failed: '' @ e]\<rparr>"
    have "\<exists>st'. processResults ?st1 rs = Some st' \<and>
           (if nonfatal rs = [] then combinedHistogram st' = None \<and> hp st' = hp ?st1
            else combinedHistogram st' = Some (length (hp ?st1)) \<and>
                 hp st' = hp ?st1 @ [mergedSamples (hp ?st1) rs])"
      by (rule Cons.IH) (use Cons.prems in auto)
    with Some show ?thesis
      by (auto simp add: processResult_fatal mergedSamples_def nonfatal_def)
  next
    case None
    from Cons.prems None have a: "Latencies r < length (hp st)" by auto
    let ?c = "length (hp st)"
    let ?h1 = "hp st @ [hp st ! Latencies r]"
    obtain st1 where s1: "processResult st r = Some st1" "combinedHistogram st1 = Some ?c" "hp st1 = ?h1"
      using None a Cons.prems(1) by (simp add: processResult_def Import_Export_def)
    have "\<exists>st'. processResults st1 rs = Some st' \<and> combinedHistogram st' = Some ?c \<and>
           hp st' = (hp st1)[?c := hp st1 ! ?c + mergedSamples (hp st1) rs]"
      by (rule processResults_merge_into) (use Cons.prems s1 in \<open>auto simp: less_Suc_eq\<close>)
    moreover have "mergedSamples ?h1 rs = mergedSamples (hp st) rs"
      unfolding mergedSamples_def using Cons.prems(2)
      by (intro arg_cong [where f = sum_list] map_cong) (auto simp: nonfatal_def nth_append)
    ultimately show ?thesis using s1 None
      by (simp add: mergedSamples_def nonfatal_def)
  qed
qed


lemma mergeGroup_other: "fst e \<noteq> k \<Longrightarrow> mergeGroup m e k = m k"
  by (cases e) (simp add: mergeGroup_def split: option.splits)

lemma mergeGroup_same:
  "mergeGroup m (k, g) k =
     Some (case m k of None \<Rightarrow> g
           | Some e \<Rightarrow> \<lparr>Count = Count e + Count g, FirstFailure = FirstFailure e\<rparr>)"
  by (simp add: mergeGroup_def split: option.splits)

lemma foldl_mergeGroup_Some:
  "m k = Some e \<Longrightarrow>
     foldl mergeGroup m es k =
       Some \<lparr>Count = foldl (+) (Count e) (map Count (groupsFor k es)),
             FirstFailure = FirstFailure e\<rparr>"
proof (induction es arbitrary: m e)
  case Nil
  then show ?case by (simp add: groupsFor_def)
next
  case (Cons x es)
  obtain n g where x: "x = (n, g)" by (cases x)
  show ?case
  proof (cases "n = k")
    case True
    have "mergeGroup m x k = Some \<lparr>Count = Count e + Count g, FirstFailure = FirstFailure e\<rparr>"
      using Cons.prems x True by (simp add: mergeGroup_same)
    from Cons.IH [of "mergeGroup m x", OF this] show ?thesis
      using x True by (simp add: groupsFor_def)
  next
    case False
    then have "mergeGroup m x k = Some e"
      using Cons.prems x by (simp add: mergeGroup_other)
    from Cons.IH [of "mergeGroup m x", OF this] show ?thesis
      using x False by (simp add: groupsFor_def)
  qed
qed

lemma foldl_mergeGroup_None:
  "m k = None \<Longrightarrow>
     foldl mergeGroup m es k =
       (case groupsFor k es of [] \<Rightarrow> None
        | g # gs \<Rightarrow> Some \<lparr>Count = foldl (+) (Count g) (map Count gs),
                           FirstFailure = FirstFailure g\<rparr>)"
proof (induction es arbitrary: m)
  case Nil
  then show ?case by (simp add: groupsFor_def)
next
  case (Cons x es)
  obtain n g where x: "x = (n, g)" by (cases x)
  show ?case
  proof (cases "n = k")
    case True
    have "mergeGroup m x k = Some g"
      using Cons.prems x True by (simp add: mergeGroup_same)
    from foldl_mergeGroup_Some [of "mergeGroup m x" k g es, OF this] show ?thesis
      using x True by (simp add: groupsFor_def)
  next
    case False
    then have "mergeGroup m x k = None"
      using Cons.prems x by (simp add: mergeGroup_other)
    from Cons.IH [of "mergeGroup m x", OF this] show ?thesis
      using x False by (simp add: groupsFor_def)
  qed
qed

lemma foldl_plus_sum_list: "foldl (+) (a::'a::monoid_add) xs = a + sum_list xs"
  by (induction xs arbitrary: a) (simp_all add: add.assoc)

lemma groupsFor_distinct:
  "distinct (map fst es) \<Longrightarrow> groupsFor k es = (case map_of es k of None \<Rightarrow> [] | Some g \<Rightarrow> [g])"
proof (induction es)
  case Nil
  then show ?case by (simp add: groupsFor_def)
next
  case (Cons x es)
  obtain n g where x: "x = (n, g)" by (cases x)
  show ?case
  proof (cases "n = k")
    case True
    with Cons.prems x have "k \<notin> fst ` set es" by auto
    then have "filter (\<lambda>e. fst e = k) es = []" by (auto simp: filter_empty_conv)
    with x True show ?thesis by (simp add: groupsFor_def)
  next
    case False
    with Cons x show ?thesis by (simp add: groupsFor_def)
  qed
qed

lemma groupsFor_concat:
  "\<forall>w\<in>set ws. distinct (map fst (f w)) \<Longrightarrow>
     groupsFor k (concat (map f ws)) = List.map_filter (\<lambda>w. map_of (f w) k) ws"
proof (induction ws)
  case Nil
  then show ?case by (simp add: groupsFor_def List.map_filter_simps)
next
  case (Cons w ws)
  have "groupsFor k (concat (map f (w # ws))) = groupsFor k (f w) @ groupsFor k (concat (map f ws))"
    by (simp add: groupsFor_def)
  with Cons show ?case
    by (simp add: groupsFor_distinct List.map_filter_simps split: option.splits)
qed

lemma processResult_errorf:
  "processResult st r = Some st' \<Longrightarrow> errorf st' = errorf st @ failureMessages [r]"
  by (auto simp: processResult_def failureMessages_def split: option.splits)

lemma processResults_errorf:
  "processResults st rs = Some st' \<Longrightarrow> errorf st' = errorf st @ failureMessages rs"
proof (induction rs arbitrary: st)
  case Nil
  then show ?case by (simp add: failureMessages_def)
next
  case (Cons r rs)
  from Cons.prems obtain st1 where s1: "processResult st r = Some st1"
    and s2: "processResults st1 rs = Some st'"
    by (auto split: option.splits)
  from Cons.IH [OF s2] processResult_errorf [OF s1] show ?case
    by (simp add: failureMessages_def)
qed

lemma nonfatal_empty_iff: "nonfatal rs = [] \<longleftrightarrow> (\<forall>r\<in>set rs. Error r \<noteq> None)"
  by (auto simp: nonfatal_def filter_empty_conv)

lemma collectResults_eq:
  fixes resultChan :: "('c::{plus,zero}, 'r::{plus,zero}, 't) WorkerResult list"
  assumes c: "0 \<le> concurrency" "nat concurrency \<le> length resultChan"
      and v: "\<forall>r\<in>set (take (nat concurrency) resultChan). Error r = None \<longrightarrow> Latencies r < length h"
      and rs: "rs = take (nat concurrency) resultChan"
  shows "collectResults scenario concurrency resultChan h =
           (if nonfatal rs = []
            then Returns (failureMessages rs, h, Inl ''all workers failed'')
            else Returns (failureMessages rs, h @ [mergedSamples h rs],
                   Inr \<lparr>Scenario = scenario,
                        TotalRate = foldl (+) 0 (map Rate (nonfatal rs)),
                        TotalSucceeded = foldl (+) 0 (map Succeeded (nonfatal rs)),
                        TotalFailed = foldl (+) 0 (map Failed (nonfatal rs)),
                        TotalLatencies = Some (length h),
                        TotalFailedByErrorGroup =
                          foldl mergeGroup Map.empty (concat (map FailedByErrorGroup (nonfatal rs))),
                        Workers = rs\<rparr>))"
proof -
  define st0 :: "('c, 'r, 't) collect_state" where "st0 =
     \<lparr>total = \<lparr>Scenario = scenario, TotalRate = 0, TotalSucceeded = 0, TotalFailed = 0,
                   TotalLatencies = None, TotalFailedByErrorGroup = Map.empty,
                   Workers = rs\<rparr>,
                 combinedHistogram = None, hp = h, errorf = []\<rparr>"
  have "\<exists>st'. processResults st0 rs = Some st' \<and>
           (if nonfatal rs = [] then combinedHistogram st' = None \<and> hp st' = hp st0
            else combinedHistogram st' = Some (length (hp st0)) \<and>
                 hp st' = hp st0 @ [mergedSamples (hp st0) rs])"
    by (rule processResults_fresh) (use v rs in \<open>auto simp: st0_def\<close>)
  then obtain st where st: "processResults st0 rs = Some st"
    and fin: "if nonfatal rs = [] then combinedHistogram st = None \<and> hp st = h
            else combinedHistogram st = Some (length h) \<and> hp st = h @ [mergedSamples h rs]"
    by (auto simp: st0_def)
  have msgs: "errorf st = failureMessages rs"
    using processResults_errorf [OF st] by (simp add: st0_def)
  have tot: "(total st)\<lparr>TotalLatencies := Some (length h)\<rparr> =
          \<lparr>Scenario = scenario,
                        TotalRate = foldl (+) 0 (map Rate (nonfatal rs)),
                        TotalSucceeded = foldl (+) 0 (map Succeeded (nonfatal rs)),
                        TotalFailed = foldl (+) 0 (map Failed (nonfatal rs)),
                        TotalLatencies = Some (length h),
                        TotalFailedByErrorGroup =
                          foldl mergeGroup Map.empty (concat (map FailedByErrorGroup (nonfatal rs))),
                        Workers = rs\<rparr>"
    using processResults_total [OF st] by (intro Result.equality) (simp_all add: st0_def)
  have "collectResults scenario concurrency resultChan h =
          (case combinedHistogram st of
                   None \<Rightarrow> Returns (errorf st, hp st, Inl ''all workers failed'')
                 | Some c \<Rightarrow>
                     Returns (errorf st, hp st,
                              Inr ((total st)\<lparr>TotalLatencies := Some c\<rparr>)))"
    using c st by (simp add: collectResults_def Let_def st0_def rs [symmetric])
  also have "\<dots> = (if nonfatal rs = []
            then Returns (failureMessages rs, h, Inl ''all workers failed'')
            else Returns (failureMessages rs, h @ [mergedSamples h rs],
                   Inr ((total st)\<lparr>TotalLatencies := Some (length h)\<rparr>)))"
    using fin msgs by (simp split: if_splits)
  finally show ?thesis by (simp only: tot)
qed


lemma collectResults_Inr:
  fixes resultChan :: "('c::{plus,zero}, 'r::{plus,zero}, 't) WorkerResult list"
  assumes "collectResults scenario concurrency resultChan h = Returns (msgs, h', Inr tot)"
      and rs: "rs = take (nat concurrency) resultChan"
  shows "\<exists>c. tot = \<lparr>Scenario = scenario,
                        TotalRate = foldl (+) 0 (map Rate (nonfatal rs)),
                        TotalSucceeded = foldl (+) 0 (map Succeeded (nonfatal rs)),
                        TotalFailed = foldl (+) 0 (map Failed (nonfatal rs)),
                        TotalLatencies = Some c,
                        TotalFailedByErrorGroup =
                          foldl mergeGroup Map.empty (concat (map FailedByErrorGroup (nonfatal rs))),
                        Workers = rs\<rparr>"
proof -
  define st0 :: "('c, 'r, 't) collect_state" where "st0 =
     \<lparr>total = \<lparr>Scenario = scenario, TotalRate = 0, TotalSucceeded = 0, TotalFailed = 0,
                   TotalLatencies = None, TotalFailedByErrorGroup = Map.empty,
                   Workers = rs\<rparr>,
                 combinedHistogram = None, hp = h, errorf = []\<rparr>"
  from assms obtain st c where st: "processResults st0 rs = Some st"
    and tot: "tot = (total st)\<lparr>TotalLatencies := Some c\<rparr>"
    by (auto simp: collectResults_def Let_def st0_def split: if_splits option.splits)
  have "tot = \<lparr>Scenario = scenario,
                        TotalRate = foldl (+) 0 (map Rate (nonfatal rs)),
                        TotalSucceeded = foldl (+) 0 (map Succeeded (nonfatal rs)),
                        TotalFailed = foldl (+) 0 (map Failed (nonfatal rs)),
                        TotalLatencies = Some c,
                        TotalFailedByErrorGroup =
                          foldl mergeGroup Map.empty (concat (map FailedByErrorGroup (nonfatal rs))),
                        Workers = rs\<rparr>"
    unfolding tot using processResults_total [OF st]
    by (intro Result.equality) (simp_all add: st0_def)
  then show ?thesis ..
qed

section \<open>Lemmas: float64 rounding\<close>

declare bitlen.simps [simp del]

lemma pow2_pos: "0 < pow2 e"
  by (simp add: pow2_def)

lemma pow2_Suc: "pow2 (e + 1) = 2 * pow2 e"
proof (cases "0 \<le> e")
  case True
  then show ?thesis by (simp add: pow2_def nat_add_distrib)
next
  case False
  then have "nat (- e) = Suc (nat (- (e + 1)))" by simp
  with False show ?thesis by (simp add: pow2_def del: nat_add_distrib)
qed

lemma pow2_add: "pow2 (a + b) = pow2 a * pow2 b"
proof -
  have nn: "pow2 (a + int n) = pow2 a * 2 ^ n" for a n
  proof (induction n)
    case 0
    then show ?case by simp
  next
    case (Suc n)
    have "a + int (Suc n) = (a + int n) + 1" by simp
    then have "pow2 (a + int (Suc n)) = pow2 ((a + int n) + 1)" by (rule arg_cong)
    also have "\<dots> = 2 * pow2 (a + int n)" by (rule pow2_Suc)
    finally show ?case using Suc by simp
  qed
  show ?thesis
  proof (cases "0 \<le> b")
    case True
    then have "pow2 (a + b) = pow2 a * 2 ^ nat b" using nn [of a "nat b"] by simp
    with True show ?thesis by (simp add: pow2_def)
  next
    case False
    then have "pow2 a = pow2 (a + b) * 2 ^ nat (- b)" using nn [of "a + b" "nat (- b)"] by simp
    with False show ?thesis by (simp add: pow2_def)
  qed
qed

lemma pow2_mono: "a \<le> b \<Longrightarrow> pow2 a \<le> pow2 b"
proof -
  assume "a \<le> b"
  then have "pow2 b = pow2 a * 2 ^ nat (b - a)"
    using pow2_add [of a "b - a"] by (simp add: pow2_def)
  moreover have "(1::rat) \<le> 2 ^ nat (b - a)" by simp
  ultimately show ?thesis using pow2_pos [of a]
    by (metis mult.right_neutral mult_le_cancel_left_pos)
qed

lemma pow2_less_imp: "pow2 a < pow2 b \<Longrightarrow> a < b"
  using pow2_mono [of b a] by (cases "a < b") auto

lemma pow2_nat: "pow2 (int n) = 2 ^ n"
  by (simp add: pow2_def)

lemma bitlen_nonneg: "0 \<le> bitlen n"
  by (induction n rule: bitlen.induct) (subst bitlen.simps, simp)

lemma bitlen_bounds:
  "0 < n \<Longrightarrow> 2 ^ nat (bitlen n - 1) \<le> n \<and> n < 2 ^ nat (bitlen n)"
proof (induction n rule: bitlen.induct)
  case (1 n)
  show ?case
  proof (cases "n = 1")
    case True
    have "bitlen 1 = 1" by (simp add: bitlen.simps)
    with True show ?thesis by simp
  next
    case False
    with "1.prems" have h: "0 < n div 2" by simp
    from "1.IH" [OF _ h] "1.prems"
    have IH: "2 ^ nat (bitlen (n div 2) - 1) \<le> n div 2" "n div 2 < 2 ^ nat (bitlen (n div 2))"
      by auto
    have b: "bitlen n = 1 + bitlen (n div 2)" using "1.prems" by (subst bitlen.simps) simp
    have pos: "0 < bitlen (n div 2)"
      using h bitlen_nonneg [of "n div 2 div 2"] by (subst bitlen.simps) simp
    then have e1: "nat (bitlen n - 1) = Suc (nat (bitlen (n div 2) - 1))"
      and e2: "nat (bitlen n) = Suc (nat (bitlen (n div 2)))" using b by simp_all
    have "2 * 2 ^ nat (bitlen (n div 2) - 1) \<le> 2 * (n div 2)" using IH(1) by simp
    also have "\<dots> \<le> n" by simp
    finally have l: "2 ^ nat (bitlen n - 1) \<le> n" by (simp add: e1)
    have "n < 2 * (n div 2) + 2" by presburger
    also have "\<dots> \<le> 2 * 2 ^ nat (bitlen (n div 2))" using IH(2) by simp
    finally have "n < 2 ^ nat (bitlen n)" by (simp add: e2)
    with l show ?thesis by simp
  qed
qed

lemma bitlen_pow2:
  assumes "0 < n"
  shows "pow2 (bitlen n - 1) \<le> of_int n" "of_int n < pow2 (bitlen n)"
proof -
  from bitlen_bounds [OF assms] have a: "2 ^ nat (bitlen n - 1) \<le> n" and b: "n < 2 ^ nat (bitlen n)"
    by auto
  have pos: "1 \<le> bitlen n" using assms bitlen_nonneg [of "n div 2"] by (subst bitlen.simps) simp
  have "(of_int (2 ^ nat (bitlen n - 1)) :: rat) \<le> of_int n" using a by (simp only: of_int_le_iff)
  then show "pow2 (bitlen n - 1) \<le> of_int n" using pos by (simp add: pow2_def)
  have "(of_int n :: rat) < of_int (2 ^ nat (bitlen n))" using b by (simp only: of_int_less_iff)
  then show "of_int n < pow2 (bitlen n)" using pos by (simp add: pow2_def)
qed

lemma ilog2_bounds:
  assumes "0 < m"
  shows "pow2 (ilog2 m) \<le> m \<and> m < pow2 (ilog2 m + 1)"
proof -
  obtain p q where pq: "quotient_of m = (p, q)" by (cases "quotient_of m")
  then have q: "0 < q" and m: "m = of_int p / of_int q"
    using quotient_of_denom_pos quotient_of_div by auto
  with assms have p: "0 < p" by (simp add: zero_less_divide_iff)
  let ?e = "bitlen p - bitlen q"
  note P = bitlen_pow2 [OF p] and Q = bitlen_pow2 [OF q]
  have qpos: "(0::rat) < of_int q" using q by simp
  have up: "m < pow2 (?e + 1)"
  proof -
    have "pow2 (bitlen p) = pow2 (?e + 1) * pow2 (bitlen q - 1)"
      using pow2_add [of "?e + 1" "bitlen q - 1"] by simp
    also have "\<dots> \<le> pow2 (?e + 1) * of_int q"
      using Q(1) pow2_pos [of "?e + 1"] by simp
    finally have "of_int p < pow2 (?e + 1) * of_int q" using P(2) by simp
    then show ?thesis using qpos by (simp add: m pos_divide_less_eq)
  qed
  have lo: "pow2 (?e - 1) < m"
  proof -
    have "pow2 (?e - 1) * of_int q < pow2 (?e - 1) * pow2 (bitlen q)"
      using Q(2) pow2_pos [of "?e - 1"] by simp
    also have "\<dots> = pow2 (bitlen p - 1)"
      using pow2_add [of "?e - 1" "bitlen q"] by simp
    finally have "pow2 (?e - 1) * of_int q < of_int p" using P(1) by simp
    then show ?thesis using qpos by (simp add: m pos_less_divide_eq)
  qed
  show ?thesis
  proof (cases "pow2 ?e \<le> m")
    case True
    then have "ilog2 m = ?e" by (simp add: ilog2_def pq)
    with True up show ?thesis by simp
  next
    case False
    then have "ilog2 m = ?e - 1" by (simp add: ilog2_def pq)
    with False lo show ?thesis by simp
  qed
qed

lemma ilog2_unique:
  assumes "pow2 e \<le> m" "m < pow2 (e + 1)"
  shows "ilog2 m = e"
proof -
  have "0 < m" using assms(1) pow2_pos [of e] by simp
  from ilog2_bounds [OF this] have b: "pow2 (ilog2 m) \<le> m" "m < pow2 (ilog2 m + 1)" by auto
  have "pow2 e < pow2 (ilog2 m + 1)" using assms(1) b(2) by simp
  then have "e < ilog2 m + 1" by (rule pow2_less_imp)
  moreover have "pow2 (ilog2 m) < pow2 (e + 1)" using assms(2) b(1) by simp
  then have "ilog2 m < e + 1" by (rule pow2_less_imp)
  ultimately show ?thesis by simp
qed


lemma round_half_even_of_int: "round_half_even (of_int k) = k"
  by (simp add: round_half_even_def)

lemma round64_at:
  assumes "pow2 e \<le> m" "m < pow2 (e + 1)"
  shows "round64 m =
     (let q = pow2 (max e (- 1022) - 52);
          r = of_int (round_half_even (m / q)) * q
      in if pow2 1024 \<le> r then None else Some r)"
  by (simp add: round64_def ilog2_unique [OF assms])

lemma floor_numeral_div: "\<lfloor>numeral a / numeral b :: rat\<rfloor> = numeral a div numeral b"
  by (metis floor_divide_of_int_eq of_int_numeral)

lemma round64_exact:
  assumes "m = of_int k * pow2 e" "2 ^ 52 \<le> k" "k < 2 ^ 53" "- 1074 \<le> e" "e \<le> 971"
  shows "round64 m = Some m"
proof -
  have k1: "(2 ^ 52 :: rat) \<le> of_int k" using assms(2) by (metis of_int_le_iff of_int_numeral of_int_power)
  have k2: "(of_int k :: rat) < 2 ^ 53" using assms(3) by (metis of_int_less_iff of_int_numeral of_int_power)
  have p52: "pow2 52 = 2 ^ 52" and p53: "pow2 53 = 2 ^ 53" by (simp_all add: pow2_def)
  have "pow2 (e + 52) = 2 ^ 52 * pow2 e" using pow2_add [of e 52] by (simp only: p52 mult.commute)
  then have lo: "pow2 (e + 52) \<le> m" using k1 pow2_pos [of e] by (simp add: assms(1))
  have e53: "e + 52 + 1 = e + 53" by simp
  have "pow2 (e + 52 + 1) = 2 ^ 53 * pow2 e"
    unfolding e53 using pow2_add [of e 53] by (simp only: p53 mult.commute)
  then have hi: "m < pow2 (e + 52 + 1)" using k2 pow2_pos [of e] by (simp add: assms(1))
  have mx: "max (e + 52) (- 1022) - 52 = e" using assms(4) by simp
  have q: "m / pow2 e = of_int k" using pow2_pos [of e] by (simp add: assms(1))
  have "m < 2 ^ 53 * pow2 e" using k2 pow2_pos [of e] by (simp add: assms(1))
  also have "\<dots> \<le> 2 ^ 53 * pow2 971" using pow2_mono [OF assms(5)] by simp
  also have "\<dots> = pow2 1024" using pow2_add [of 971 53] by (simp only: p53 mult.commute) simp
  finally have "\<not> pow2 1024 \<le> m" by simp
  then show ?thesis
    unfolding round64_at [OF lo hi] mx Let_def q round_half_even_of_int
    by (simp add: assms(1))
qed

lemma bitlen_pos: "0 < n \<Longrightarrow> 1 \<le> bitlen n"
  using bitlen_nonneg [of "n div 2"] by (subst bitlen.simps) simp

lemma round64_of_int:
  assumes "0 < n" "n < 2 ^ 53"
  shows "round64 (of_int n) = Some (of_int n)"
proof -
  let ?b = "bitlen n"
  from bitlen_bounds [OF assms(1)] have lo: "2 ^ nat (?b - 1) \<le> n" and hi: "n < 2 ^ nat ?b"
    by auto
  have b1: "1 \<le> ?b" by (rule bitlen_pos [OF assms(1)])
  have "(2::int) ^ nat (?b - 1) < 2 ^ 53" using lo assms(2) by simp
  then have "nat (?b - 1) < 53" by (rule power_less_imp_less_exp [rotated]) simp
  then have b53: "?b \<le> 53" by simp
  define j where "j = nat (53 - ?b)"
  have j1: "nat (?b - 1) + j = 52" and j2: "nat ?b + j = 53"
    using b1 b53 by (simp_all add: j_def)
  have "(2::int) ^ 52 = 2 ^ nat (?b - 1) * 2 ^ j" by (simp only: j1 [symmetric] power_add)
  also have "\<dots> \<le> n * 2 ^ j" using lo by simp
  finally have k1: "2 ^ 52 \<le> n * 2 ^ j" .
  have "n * 2 ^ j < 2 ^ nat ?b * 2 ^ j" using hi by simp
  also have "\<dots> = 2 ^ 53" by (simp only: j2 [symmetric] power_add)
  finally have k2: "n * 2 ^ j < 2 ^ 53" .
  have "j \<le> 52" using j1 by simp
  have m: "(of_int n :: rat) = of_int (n * 2 ^ j) * pow2 (- int j)"
    by (simp add: pow2_def)
  show ?thesis
    by (rule round64_exact [OF m k1 k2]) (use \<open>j \<le> 52\<close> in simp_all)
qed

lemma float64_of_numeral:
  "(numeral k :: int) < 2 ^ 53 \<Longrightarrow> float64_of s (numeral k) = Finite s (numeral k)"
  using round64_of_int [of "numeral k"] by (simp add: float64_of_def)

lemma sample_run:
  "collectResults ''s'' 3 [worker_a, worker_c, worker_b] sample_heap =
     Returns ([''Worker failed: connection refused''], [{#100, 250#}, {#90#}, {#100, 250, 90#}],
       Inr sample_total)"
  by (simp add: collectResults_def Let_def processResult_def Import_Export_def Merge_def
        mergeGroup_def float64_of_numeral zero_float64_def plus_float64_def
        worker_a_def worker_b_def worker_c_def sample_heap_def sample_total_def)

lemma mergedSamples_union: "mergedSamples h rs = unionOfSamples h rs"
  by (simp add: mergedSamples_def unionOfSamples_def nonfatal_def sum_mset_sum_list [symmetric]
        mset_filter [symmetric] del: mset_filter)

lemma unionOfSamples_perm: "mset rs' = mset rs \<Longrightarrow> unionOfSamples h rs' = unionOfSamples h rs"
  by (simp add: unionOfSamples_def)

lemma nonfatal_perm_empty: "mset rs' = mset rs \<Longrightarrow> nonfatal rs' = [] \<longleftrightarrow> nonfatal rs = []"
  by (metis nonfatal_empty_iff set_mset_mset)

section \<open>Properties of the result collection\<close>

text \<open>
  Claim C1. Provided the channel delivers the \<open>concurrency\<close> results the call waits for
  and every worker that ended without a fatal error carries its histogram,
  \<open>collectResults\<close> returns; it returns an error exactly when every collected
  \<open>WorkerResult\<close> carries a fatal \<open>Error\<close>, the error then being "all workers failed",
  and a \<open>Result\<close> without an error as soon as one worker ended without a fatal error.
\<close>

theorem collectResults_error_iff_all_fatal:
  fixes resultChan :: "('c::{plus,zero}, 'r::{plus,zero}, 't) WorkerResult list"
  assumes "0 \<le> concurrency" "nat concurrency \<le> length resultChan"
      and "\<forall>r\<in>set (take (nat concurrency) resultChan). Error r = None \<longrightarrow> Latencies r < length h"
  shows "\<exists>msgs h' res.
           collectResults scenario concurrency resultChan h = Returns (msgs, h', res) \<and>
           (isl res \<longleftrightarrow> (\<forall>r\<in>set (take (nat concurrency) resultChan). Error r \<noteq> None)) \<and>
           (isl res \<longrightarrow> res = Inl ''all workers failed'')"
  unfolding collectResults_eq [OF assms refl]
  by (cases "nonfatal (take (nat concurrency) resultChan) = []")
     (simp_all add: nonfatal_empty_iff)

theorem collectResults_error_iff_all_fatal_witness:
  "(0::int) \<le> 3 \<and> nat 3 \<le> length [worker_a, worker_c, worker_b] \<and>
   (\<exists>msgs h' tot.
      collectResults ''s'' 3 [worker_a, worker_c, worker_b] sample_heap = Returns (msgs, h', Inr tot)) \<and>
   (\<exists>msgs h'.
      collectResults ''s'' 1 [worker_c] sample_heap = Returns (msgs, h', Inl ''all workers failed''))"
proof -
  have a: "(0::int) \<le> 3" and b: "nat 3 \<le> length [worker_a, worker_c, worker_b]"
    by simp_all
  have c: "\<forall>r\<in>set (take (nat 3) [worker_a, worker_c, worker_b]).
             Error r = None \<longrightarrow> Latencies r < length sample_heap"
    by (simp add: worker_a_def worker_b_def worker_c_def sample_heap_def)
  have a': "(0::int) \<le> 1" and b': "nat 1 \<le> length [worker_c]"
    by simp_all
  have c': "\<forall>r\<in>set (take (nat 1) [worker_c]).
             Error r = None \<longrightarrow> Latencies r < length sample_heap"
    by (simp add: worker_c_def)
  from collectResults_error_iff_all_fatal [OF a b c, of "''s''"]
  obtain msgs h' res where
    r: "collectResults ''s'' 3 [worker_a, worker_c, worker_b] sample_heap = Returns (msgs, h', res)"
    and "isl res \<longleftrightarrow> (\<forall>r\<in>set (take (nat 3) [worker_a, worker_c, worker_b]). Error r \<noteq> None)"
    by blast
  then have "\<not> isl res" by (simp add: worker_a_def)
  then obtain tot where "res = Inr tot" by (cases res) simp_all
  with r have 1: "\<exists>msgs h' tot.
      collectResults ''s'' 3 [worker_a, worker_c, worker_b] sample_heap = Returns (msgs, h', Inr tot)"
    by blast
  from collectResults_error_iff_all_fatal [OF a' b' c', of "''s''"]
  have 2: "\<exists>msgs h'.
      collectResults ''s'' 1 [worker_c] sample_heap = Returns (msgs, h', Inl ''all workers failed'')"
    by (auto simp: worker_c_def)
  from a b 1 2 show ?thesis by blast
qed

text \<open>
  Claim C3. In a returned \<open>Result\<close>, \<open>TotalSucceeded\<close> and \<open>TotalFailed\<close> are the sums
  of the counts of the workers without a fatal error, \<open>TotalRate\<close> is the sum of their
  rates, added from zero in the order the results were received (the rates are floats),
  and \<open>Workers\<close> is the list of all collected results, fatal ones included.
\<close>

theorem collectResults_totals:
  fixes resultChan :: "('c::monoid_add, 'r::{plus,zero}, 't) WorkerResult list"
  assumes "collectResults scenario concurrency resultChan h = Returns (msgs, h', Inr tot)"
  shows "TotalSucceeded tot = sum_list (map Succeeded (nonfatal (take (nat concurrency) resultChan))) \<and>
         TotalFailed tot = sum_list (map Failed (nonfatal (take (nat concurrency) resultChan))) \<and>
         TotalRate tot = foldl (+) 0 (map Rate (nonfatal (take (nat concurrency) resultChan))) \<and>
         Workers tot = take (nat concurrency) resultChan"
proof -
  from collectResults_Inr [OF assms refl] show ?thesis
    by (auto simp: foldl_plus_sum_list)
qed

theorem collectResults_totals_witness:
  "TotalSucceeded sample_total =
     sum_list (map Succeeded (nonfatal (take (nat 3) [worker_a, worker_c, worker_b]))) \<and>
   TotalFailed sample_total =
     sum_list (map Failed (nonfatal (take (nat 3) [worker_a, worker_c, worker_b]))) \<and>
   TotalRate sample_total =
     foldl (+) 0 (map Rate (nonfatal (take (nat 3) [worker_a, worker_c, worker_b]))) \<and>
   Workers sample_total = take (nat 3) [worker_a, worker_c, worker_b]"
  by (rule collectResults_totals [OF sample_run])

text \<open>
  Claim C2, as the code has it. For every error signature, the aggregate \<open>Count\<close> is
  the sum of the counts that the workers without a fatal error recorded for it, and the
  aggregate \<open>FirstFailure\<close> is the one of the first such worker, in the order the
  results were received, whose map has the signature. The maps of the workers are Go
  maps, so their keys are distinct.
\<close>

theorem collectResults_failure_groups:
  fixes resultChan :: "('c::monoid_add, 'r::{plus,zero}, 't) WorkerResult list"
  assumes "collectResults scenario concurrency resultChan h = Returns (msgs, h', Inr tot)"
      and "\<forall>r\<in>set resultChan. distinct (map fst (FailedByErrorGroup r))"
  shows "TotalFailedByErrorGroup tot k =
           (case List.map_filter (\<lambda>r. map_of (FailedByErrorGroup r) k)
                   (nonfatal (take (nat concurrency) resultChan)) of
              [] \<Rightarrow> None
            | g # gs \<Rightarrow> Some \<lparr>Count = sum_list (map Count (g # gs)),
                               FirstFailure = FirstFailure g\<rparr>)"
proof -
  let ?ws = "nonfatal (take (nat concurrency) resultChan)"
  have d: "\<forall>w\<in>set ?ws. distinct (map fst (FailedByErrorGroup w))"
    using assms(2) by (auto simp: nonfatal_def dest: in_set_takeD)
  from collectResults_Inr [OF assms(1) refl]
  have "TotalFailedByErrorGroup tot k =
          foldl mergeGroup Map.empty (concat (map FailedByErrorGroup ?ws)) k"
    by auto
  also have "\<dots> = (case groupsFor k (concat (map FailedByErrorGroup ?ws)) of [] \<Rightarrow> None
        | g # gs \<Rightarrow> Some \<lparr>Count = foldl (+) (Count g) (map Count gs),
                           FirstFailure = FirstFailure g\<rparr>)"
    by (rule foldl_mergeGroup_None) simp
  finally show ?thesis
    by (simp add: groupsFor_concat [OF d] foldl_plus_sum_list split: list.splits)
qed

theorem collectResults_failure_groups_witness:
  "TotalFailedByErrorGroup sample_total ''boom'' = Some \<lparr>Count = 3, FirstFailure = 50\<rparr>"
proof -
  have d: "\<forall>r\<in>set [worker_a, worker_c, worker_b]. distinct (map fst (FailedByErrorGroup r))"
    by (simp add: worker_a_def worker_b_def worker_c_def)
  from collectResults_failure_groups [OF sample_run d, of "''boom''"] show ?thesis
    by (simp add: List.map_filter_simps nonfatal_def worker_a_def worker_b_def worker_c_def)
qed

text \<open>
  Claim C2 as stated fails: the aggregate \<open>FirstFailure\<close> is not the earliest one.
  Worker b, without a fatal error, recorded the signature \<open>boom\<close> first at time 30, the
  aggregate keeps the 50 of worker a, whose result was received first.
\<close>

theorem first_failure_not_earliest:
  "returnedGroup (collectResults ''s'' 3 [worker_a, worker_c, worker_b] sample_heap) ''boom'' =
     Some \<lparr>Count = 3, FirstFailure = 50\<rparr> \<and>
   Error worker_b = None \<and>
   map_of (FailedByErrorGroup worker_b) ''boom'' = Some \<lparr>Count = 2, FirstFailure = 30\<rparr> \<and>
   (30 :: int) < 50"
  by (simp only: sample_run)
     (simp add: returnedGroup_def returnedResult_def sample_total_def worker_b_def)

text \<open>
  Claim C7. With the histogram modelled as the collection of its samples: whatever the
  order in which the results of the workers arrive, the combined histogram holds the
  union of the samples of all workers without a fatal error, so every query on it
  gives the same answer; it is a new histogram, placed after the ones that existed
  before the call, and those, the first worker's among them, are unchanged.
\<close>

theorem combined_histogram_order_independent:
  fixes chan :: "('c::{plus,zero}, 'r::{plus,zero}, 't) WorkerResult list"
  assumes perm: "mset chan' = mset chan"
      and conc: "concurrency = int (length chan)"
      and valid: "\<forall>r\<in>set chan. Error r = None \<longrightarrow> Latencies r < length h"
      and some: "\<exists>r\<in>set chan. Error r = None"
  shows "returnedHeap (collectResults scenario concurrency chan' h) = Some (h @ [unionOfSamples h chan]) \<and>
         returnedLatencies (collectResults scenario concurrency chan' h) = Some (length h)"
proof -
  have len: "length chan' = length chan" using perm by (metis size_mset)
  have set: "set chan' = set chan" using perm by (metis set_mset_mset)
  have tk: "take (nat concurrency) chan' = chan'" using conc len by simp
  have a: "0 \<le> concurrency" and b: "nat concurrency \<le> length chan'" using conc len by simp_all
  have c: "\<forall>r\<in>set (take (nat concurrency) chan'). Error r = None \<longrightarrow> Latencies r < length h"
    using valid set tk by simp
  have ne: "nonfatal chan' \<noteq> []" using some set by (auto simp: nonfatal_empty_iff)
  show ?thesis
    unfolding collectResults_eq [OF a b c tk [symmetric]]
    using ne
    by (simp add: returnedHeap_def returnedLatencies_def returnedResult_def mergedSamples_union
          unionOfSamples_perm [OF perm])
qed

theorem combined_histogram_order_independent_witness:
  "returnedHeap (collectResults ''s'' 3 [worker_b, worker_c, worker_a] sample_heap) =
     Some (sample_heap @ [unionOfSamples sample_heap [worker_a, worker_c, worker_b]]) \<and>
   returnedLatencies (collectResults ''s'' 3 [worker_b, worker_c, worker_a] sample_heap) =
     Some (length sample_heap) \<and>
   unionOfSamples sample_heap [worker_a, worker_c, worker_b] = {#100, 250, 90#}"
proof -
  have p: "mset [worker_b, worker_c, worker_a] = mset [worker_a, worker_c, worker_b]"
    by (simp add: add.commute)
  have c: "(3::int) = int (length [worker_a, worker_c, worker_b])" by simp
  have v: "\<forall>r\<in>set [worker_a, worker_c, worker_b]. Error r = None \<longrightarrow> Latencies r < length sample_heap"
    by (simp add: worker_a_def worker_b_def worker_c_def sample_heap_def)
  have s: "\<exists>r\<in>set [worker_a, worker_c, worker_b]. Error r = None"
    by (simp add: worker_a_def)
  have u: "unionOfSamples sample_heap [worker_a, worker_c, worker_b] = {#100, 250, 90#}"
    by (simp add: unionOfSamples_def worker_a_def worker_b_def worker_c_def sample_heap_def)
  from combined_histogram_order_independent [OF p c v s, of "''s''"] u show ?thesis by simp
qed

section \<open>Lemmas: the error of a float64 division\<close>

lemma round_half_even_error: "\<bar>of_int (round_half_even x) - x\<bar> \<le> (1 / 2 :: rat)"
proof -
  have "of_int \<lfloor>x\<rfloor> \<le> x" "x < of_int \<lfloor>x\<rfloor> + 1" by linarith+
  then show ?thesis by (auto simp: round_half_even_def Let_def)
qed

lemma pow2_diff: "b \<le> a \<Longrightarrow> pow2 a = pow2 b * 2 ^ nat (a - b)"
  using pow2_add [of b "a - b"] by (simp add: pow2_def)

lemma round64_error:
  assumes lo: "pow2 e \<le> m" and hi: "m < pow2 (e + 1)" and e: "- 1022 \<le> e" "e \<le> 1022"
  shows "\<exists>r. round64 m = Some r \<and> \<bar>r - m\<bar> \<le> m / 2 ^ 53"
proof -
  define q where "q = pow2 (e - 52)"
  define r where "r = of_int (round_half_even (m / q)) * q"
  have qpos: "0 < q" by (simp add: q_def pow2_pos)
  have mx: "max e (- 1022) = e" using e by simp
  have p53: "pow2 53 = 2 ^ 53" and p52: "pow2 52 = 2 ^ 52" by (simp_all add: pow2_def)
  have qe: "pow2 e = q * 2 ^ 52" using pow2_diff [of "e - 52" e] by (simp add: q_def)
  have "r - m = (of_int (round_half_even (m / q)) - m / q) * q"
    using qpos by (simp add: r_def left_diff_distrib)
  then have "\<bar>r - m\<bar> = \<bar>of_int (round_half_even (m / q)) - m / q\<bar> * q"
    using qpos by (simp add: abs_mult)
  also have "\<dots> \<le> (1 / 2) * q"
    using round_half_even_error [of "m / q"] qpos by (intro mult_right_mono) simp_all
  finally have err: "\<bar>r - m\<bar> \<le> q / 2" by simp
  have "q / 2 = pow2 e / 2 ^ 53" by (simp add: qe)
  also have "\<dots> \<le> m / 2 ^ 53" using lo by (simp add: divide_right_mono)
  finally have rel: "q / 2 \<le> m / 2 ^ 53" .
  have "pow2 (e + 1) = q * 2 ^ 53" using pow2_diff [of "e - 52" "e + 1"] by (simp add: q_def)
  then have "m < q * 2 ^ 53" using hi by simp
  moreover have "r \<le> m + q / 2" using err by linarith
  ultimately have "r < q * 2 ^ 53 + q / 2" by linarith
  also have "\<dots> \<le> q * 2 ^ 54" using qpos by simp
  also have "\<dots> = pow2 (e + 2)" using pow2_diff [of "e - 52" "e + 2"] by (simp add: q_def)
  also have "\<dots> \<le> pow2 1024" using e by (intro pow2_mono) simp
  finally have "\<not> pow2 1024 \<le> r" by simp
  then have "round64 m = Some r"
    by (simp add: round64_at [OF lo hi] mx Let_def q_def [symmetric] r_def [symmetric])
  with err rel show ?thesis by auto
qed

lemma round64_normal:
  assumes "pow2 (- 1022) \<le> m" "m < pow2 1023"
  shows "\<exists>r. round64 m = Some r \<and> \<bar>r - m\<bar> \<le> m / 2 ^ 53"
proof -
  have "0 < m" using assms(1) pow2_pos [of "- 1022"] by simp
  from ilog2_bounds [OF this] have b: "pow2 (ilog2 m) \<le> m" "m < pow2 (ilog2 m + 1)" by auto
  have "pow2 (- 1022) < pow2 (ilog2 m + 1)" using assms(1) b(2) by simp
  then have 1: "- 1022 \<le> ilog2 m" using pow2_less_imp by fastforce
  have "pow2 (ilog2 m) < pow2 1023" using assms(2) b(1) by simp
  then have 2: "ilog2 m \<le> 1022" using pow2_less_imp by fastforce
  from round64_error [OF b 1 2] show ?thesis .
qed


lemma sint_Duration:
  "- (2 ^ 63) \<le> d * 1000 \<Longrightarrow> d * 1000 < 2 ^ 63 \<Longrightarrow>
     sint (word_of_int d * Microsecond) = d * 1000"
proof -
  assume a: "- (2 ^ 63) \<le> d * 1000" "d * 1000 < 2 ^ 63"
  have "word_of_int d * Microsecond = (word_of_int (d * 1000) :: 64 word)"
    by (simp add: Microsecond_def)
  then have "sint (word_of_int d * Microsecond) = signed_take_bit 63 (d * 1000)"
    by (simp only: sint_sbintrunc') simp
  also have "\<dots> = d * 1000" using a by (rule signed_take_bit_int_eq_self)
  finally show ?thesis .
qed

lemma fdiv_positive:
  assumes "0 < x" "0 < y" "pow2 (- 1022) \<le> x / y" "x / y < pow2 1023"
  shows "\<exists>q. fdiv (Finite False x) (Finite False y) = Finite False q \<and>
              \<bar>q - x / y\<bar> \<le> (x / y) / 2 ^ 53"
proof -
  from round64_normal [OF assms(3,4)] obtain q where
    "round64 (x / y) = Some q" "\<bar>q - x / y\<bar> \<le> (x / y) / 2 ^ 53" by blast
  then show ?thesis using assms(1,2) by (simp add: float64_of_def)
qed

lemma float64_of_int_pos: "0 < n \<Longrightarrow> n < 2 ^ 53 \<Longrightarrow> float64_of_int n = Finite False (of_int n)"
  by (simp add: float64_of_int_def float64_of_def round64_of_int)

lemma float64_of_half: "float64_of s (1 / 2) = Finite s (1 / 2)"
proof -
  have "round64 (1 / 2) = Some (1 / 2)"
    by (rule round64_exact [where k = "2 ^ 52" and e = "- 53"]) (simp_all add: pow2_def)
  then show ?thesis by (simp add: float64_of_def)
qed

lemma float64_of_int_numeral:
  "(numeral k :: int) < 2 ^ 53 \<Longrightarrow> float64_of_int (numeral k) = Finite False (numeral k)"
  using float64_of_int_pos [of "numeral k"] by simp

lemma floor_half: "\<lfloor>1 / 2 :: rat\<rfloor> = 0"
  by (rule floor_unique) simp_all

section \<open>Properties of the pacing interval\<close>

text \<open>
  Claim C4, as the code has it. In latency mode, with fewer than 2 to the power 53
  workers and a per-worker rate (the total rate divided by the number of workers)
  between 2 to the power -33 and 2 to the power 1023 per second, the interval is a whole
  number of microseconds: one second divided by the per-worker rate, rounded down to a
  microsecond, up to the relative rounding error, 2 to the power -53, of each of the two
  float64 divisions. For 10 tx/s and 2 workers it is exactly 200ms, as the evaluation
  after the theorem shows.
\<close>

theorem ratePerWorkerDuration_latency:
  assumes n: "0 < numClients" "numClients < 2 ^ 53"
      and lo: "pow2 (- 33) \<le> r / of_int numClients"
      and hi: "r / of_int numClients < pow2 1023"
  shows "\<exists>d. ratePerWorkerDuration True numClients (Finite False r) = Some d \<and>
              0 \<le> sint d \<and> sint d mod 1000 = 0 \<and>
              spec_interval_ns r numClients * (1 - 1 / 2 ^ 53) / (1 + 1 / 2 ^ 53) - 1000 < of_int (sint d) \<and>
              of_int (sint d) \<le> spec_interval_ns r numClients * (1 + 1 / 2 ^ 53) / (1 - 1 / 2 ^ 53)"
proof -
  define x1 where "x1 = r / of_int numClients"
  define eps :: rat where "eps = 1 / 2 ^ 53"
  have eps: "0 < eps" "eps < 1" by (simp_all add: eps_def)
  have npos: "(0::rat) < of_int numClients" using n(1) by simp
  have x1pos: "0 < x1" using lo pow2_pos [of "- 33"] by (simp add: x1_def)
  then have rpos: "0 < r" using npos by (simp add: x1_def zero_less_divide_iff)
  have "pow2 (- 1022) \<le> pow2 (- 33)" by (rule pow2_mono) simp
  then have lo': "pow2 (- 1022) \<le> r / of_int numClients" using lo by simp
  from fdiv_positive [OF rpos npos lo' hi] obtain p where
    p: "fdiv (Finite False r) (Finite False (of_int numClients)) = Finite False p"
    and perr: "\<bar>p - x1\<bar> \<le> x1 * eps" by (auto simp: x1_def eps_def)
  have p1: "x1 * (1 - eps) \<le> p" and p2: "p \<le> x1 * (1 + eps)"
    using perr by (simp_all add: abs_le_iff algebra_simps)
  have "0 < x1 * (1 - eps)" using x1pos eps by simp
  with p1 have ppos: "0 < p" by simp
  define x2 where "x2 = 10 ^ 6 / p"
  define X where "X = 10 ^ 6 / x1"
  have Xpos: "0 < X" using x1pos by (simp add: X_def)
  have x2pos: "0 < x2" using ppos by (simp add: x2_def)
  have x2lo: "X / (1 + eps) \<le> x2"
  proof -
    have "10 ^ 6 / (x1 * (1 + eps)) \<le> 10 ^ 6 / p"
      using p2 ppos by (intro divide_left_mono) (simp_all add: x1pos eps)
    then show ?thesis by (simp add: X_def x2_def)
  qed
  have x2hi: "x2 \<le> X / (1 - eps)"
  proof -
    have "0 < x1 * (1 - eps)" using x1pos eps by simp
    then have "10 ^ 6 / p \<le> 10 ^ 6 / (x1 * (1 - eps))"
      using p1 ppos by (intro divide_left_mono) simp_all
    then show ?thesis by (simp add: X_def x2_def)
  qed
  have Xhi: "X \<le> 10 ^ 6 * 2 ^ 33"
  proof -
    have e33: "pow2 (- 33) = 1 / 2 ^ 33" by (simp add: pow2_def)
    have "1 / 2 ^ 33 \<le> x1" using lo unfolding x1_def e33 .
    then have "10 ^ 6 / x1 \<le> 10 ^ 6 / (1 / 2 ^ 33)"
      by (intro divide_left_mono) (simp_all add: x1pos)
    then show ?thesis by (simp add: X_def)
  qed
  have Xlo: "10 ^ 6 / pow2 1023 < X"
  proof -
    have h: "x1 < pow2 1023" using hi by (simp only: x1_def)
    have "0 < pow2 1023 * x1" using pow2_pos [of 1023] x1pos by (rule mult_pos_pos)
    then have "10 ^ 6 / pow2 1023 < 10 ^ 6 / x1"
      using h by (intro divide_strict_left_mono) simp_all
    then show ?thesis by (simp only: X_def)
  qed
  have b1: "pow2 (- 1022) \<le> 10 ^ 6 / p"
  proof -
    have "pow2 (- 1022) = 4 / (2 * pow2 1023)" by (simp add: pow2_def)
    also have "\<dots> \<le> 10 ^ 6 / (2 * pow2 1023)" by (intro divide_right_mono) (simp_all add: pow2_def)
    also have "\<dots> = (10 ^ 6 / pow2 1023) / 2" by simp
    also have "\<dots> \<le> X / 2" using Xlo by simp
    also have "\<dots> \<le> X / (1 + eps)" using Xpos eps by (intro divide_left_mono) simp_all
    also have "\<dots> \<le> x2" by (rule x2lo)
    finally show ?thesis by (simp add: x2_def)
  qed
  have half: "1 / 2 \<le> 1 - eps" by (simp add: eps_def)
  have x2bound: "x2 \<le> 10 ^ 6 * 2 ^ 34"
  proof -
    have "x2 \<le> X / (1 - eps)" by (rule x2hi)
    also have "\<dots> \<le> X / (1 / 2)" using half Xpos by (intro divide_left_mono) simp_all
    also have "\<dots> \<le> 10 ^ 6 * 2 ^ 34" using Xhi by simp
    finally show ?thesis .
  qed
  have b2: "10 ^ 6 / p < pow2 1023"
  proof -
    have "(10 ^ 6 * 2 ^ 34 :: rat) < pow2 1023" by (simp add: pow2_def)
    with x2bound show ?thesis by (simp add: x2_def)
  qed
  have m6: "(0::rat) < 10 ^ 6" by simp
  from fdiv_positive [OF m6 ppos b1 b2] obtain q where
    q: "fdiv (Finite False (10 ^ 6)) (Finite False p) = Finite False q"
    and qerr: "\<bar>q - x2\<bar> \<le> x2 * eps" by (auto simp: x2_def eps_def)
  have q1: "x2 * (1 - eps) \<le> q" and q2: "q \<le> x2 * (1 + eps)"
    using qerr by (simp_all add: abs_le_iff algebra_simps)
  have "0 \<le> x2 * (1 - eps)" using x2pos eps by simp
  with q1 have qpos: "0 \<le> q" by simp
  have qlo: "X * (1 - eps) / (1 + eps) \<le> q"
  proof -
    have "X / (1 + eps) * (1 - eps) \<le> x2 * (1 - eps)"
      using x2lo eps by (intro mult_right_mono) simp_all
    with q1 show ?thesis by simp
  qed
  have qhi: "q \<le> X * (1 + eps) / (1 - eps)"
  proof -
    have "x2 * (1 + eps) \<le> X / (1 - eps) * (1 + eps)"
      using x2hi eps by (intro mult_right_mono) simp_all
    with q2 show ?thesis by simp
  qed
  define B where "B = (10 ^ 6 * 2 ^ 33) * (1 + eps) / (1 - eps)"
  have B1: "B * 1000 < 2 ^ 63" by (simp add: B_def eps_def)
  have "X * (1 + eps) / (1 - eps) \<le> B"
    unfolding B_def using Xhi eps by (intro divide_right_mono mult_right_mono) simp_all
  with qhi have "q \<le> B" by (rule order_trans)
  then have "q * 1000 \<le> B * 1000" by simp
  then have qbound: "q * 1000 < 2 ^ 63" using B1 by (rule le_less_trans)
  define d where "d = \<lfloor>q\<rfloor>"
  have d0: "0 \<le> d" using qpos by (simp add: d_def)
  have dq: "of_int d \<le> q" "q < of_int d + 1" unfolding d_def by linarith+
  have "(of_int (d * 1000) :: rat) < of_int (2 ^ 63)" using dq(1) qbound by simp
  then have dhi: "d * 1000 < 2 ^ 63" by (simp only: of_int_less_iff)
  then have d63: "d < 2 ^ 63" using d0 by simp
  have dur: "Duration_of_float64 (Finite False q) = Some d"
    using d0 d63 by (simp add: Duration_of_float64_def d_def Let_def)
  have m: "float64_of_int (1000 * 1000) = Finite False (10 ^ 6)"
    using float64_of_int_pos [of "1000 * 1000"] by simp
  have res: "ratePerWorkerDuration True numClients (Finite False r) =
          Some (word_of_int d * Microsecond)"
    unfolding ratePerWorkerDuration_def Let_def float64_of_int_pos [OF n] p m q dur by simp
  have s: "sint (word_of_int d * Microsecond) = d * 1000"
    using d0 dhi by (intro sint_Duration) simp_all
  have S: "spec_interval_ns r numClients = X * 1000"
    by (simp add: spec_interval_ns_def X_def x1_def)
  have eqL: "X * 1000 * (1 - eps) / (1 + eps) = X * (1 - eps) / (1 + eps) * 1000" by simp
  have eqU: "X * 1000 * (1 + eps) / (1 - eps) = X * (1 + eps) / (1 - eps) * 1000" by simp
  have "X * (1 - eps) / (1 + eps) * 1000 \<le> q * 1000" using qlo by (intro mult_right_mono) simp_all
  moreover have "q * 1000 - 1000 < of_int d * 1000" using dq(2) by simp
  ultimately have "X * 1000 * (1 - eps) / (1 + eps) - 1000 < of_int d * 1000"
    unfolding eqL by linarith
  then have L: "spec_interval_ns r numClients * (1 - eps) / (1 + eps) - 1000 < of_int (d * 1000)"
    by (simp only: S of_int_mult of_int_numeral)
  have "(of_int d * 1000 :: rat) \<le> q * 1000" using dq(1) by simp
  moreover have "q * 1000 \<le> X * (1 + eps) / (1 - eps) * 1000"
    using qhi by (intro mult_right_mono) simp_all
  ultimately have "of_int d * 1000 \<le> X * 1000 * (1 + eps) / (1 - eps)"
    unfolding eqU by linarith
  then have U: "of_int (d * 1000) \<le> spec_interval_ns r numClients * (1 + eps) / (1 - eps)"
    by (simp only: S of_int_mult of_int_numeral)
  show ?thesis
  proof (intro exI conjI)
    show "ratePerWorkerDuration True numClients (Finite False r) =
            Some (word_of_int d * Microsecond)" by (rule res)
    show "0 \<le> sint (word_of_int d * Microsecond)" unfolding s using d0 by simp
    show "sint (word_of_int d * Microsecond) mod 1000 = 0" unfolding s by simp
    show "spec_interval_ns r numClients * (1 - 1 / 2 ^ 53) / (1 + 1 / 2 ^ 53) - 1000
            < of_int (sint (word_of_int d * Microsecond))"
      unfolding s using L by (simp only: eps_def)
    show "of_int (sint (word_of_int d * Microsecond))
            \<le> spec_interval_ns r numClients * (1 + 1 / 2 ^ 53) / (1 - 1 / 2 ^ 53)"
      unfolding s using U by (simp only: eps_def)
  qed
qed

theorem ratePerWorkerDuration_latency_witness:
  "ratePerWorkerDuration True 2 (Finite False 10) = Some 200000000 \<and>
   (\<exists>d. ratePerWorkerDuration True 2 (Finite False 10) = Some d \<and>
        0 \<le> sint d \<and> sint d mod 1000 = 0 \<and>
        spec_interval_ns 10 2 * (1 - 1 / 2 ^ 53) / (1 + 1 / 2 ^ 53) - 1000 < of_int (sint d) \<and>
        of_int (sint d) \<le> spec_interval_ns 10 2 * (1 + 1 / 2 ^ 53) / (1 - 1 / 2 ^ 53))"
proof -
  have a: "(0::int) < 2" "(2::int) < 2 ^ 53" by simp_all
  have b: "pow2 (- 33) \<le> 10 / of_int 2" "10 / of_int 2 < pow2 1023"
    by (simp_all add: pow2_def)
  have "ratePerWorkerDuration True 2 (Finite False 10) = Some 200000000"
    by (simp add: ratePerWorkerDuration_def Let_def float64_of_int_numeral float64_of_numeral
          Duration_of_float64_def Microsecond_def)
  with ratePerWorkerDuration_latency [OF a b] show ?thesis by simp
qed

text \<open>
  Claim C4 as stated fails: the interval is not one second divided by the per-worker
  rate. At 2000000 tx/s for one worker that is 500ns; the conversion to whole
  microseconds makes the interval zero.
\<close>

theorem interval_not_one_second_over_rate:
  "ratePerWorkerDuration True 1 (Finite False 2000000) = Some 0 \<and>
   spec_interval_ns 2000000 1 = 500"
  by (simp add: ratePerWorkerDuration_def Let_def float64_of_int_numeral float64_of_numeral
        float64_of_half float64_of_int_pos Duration_of_float64_def Microsecond_def
        spec_interval_ns_def floor_half)

text \<open>
  Claim C5. When latency mode is not selected the interval is zero, and every worker
  that \<open>runBenchmark\<close> starts is handed this zero interval.
\<close>

theorem throughput_mode_interval_zero:
  "ratePerWorkerDuration False numClients rate = Some 0 \<and>
   (0 \<le> numClients \<longrightarrow>
      runBenchmark_workers False numClients rate =
        Some (Returns (map (\<lambda>i. (i, 0)) [0..<nat numClients])))"
  by (simp add: ratePerWorkerDuration_def runBenchmark_workers_def startWorkers_def)

theorem throughput_mode_interval_zero_witness:
  "ratePerWorkerDuration False 3 (Finite False 10) = Some 0 \<and>
   runBenchmark_workers False 3 (Finite False 10) = Some (Returns [(0, 0), (1, 0), (2, 0)])"
proof -
  have "[0..<nat 3] = [0, 1, 2]" by (simp add: upt_rec)
  with throughput_mode_interval_zero [of 3 "Finite False 10"] show ?thesis by simp
qed

section \<open>Lemmas: the stages of main\<close>

lemma of_char_toLowerChar:
  "(of_char (toLowerChar c) :: int) =
     (if 65 \<le> (of_char c :: int) \<and> (of_char c :: int) \<le> 90 then of_char c + 32 else of_char c)"
  by (simp add: toLowerChar_def Let_def)

lemma of_char_toUpperChar:
  "(of_char (toUpperChar c) :: int) =
     (if 97 \<le> (of_char c :: int) \<and> (of_char c :: int) \<le> 122 then of_char c - 32 else of_char c)"
  by (simp add: toUpperChar_def Let_def)

lemma char_eq_int: "c = d \<longleftrightarrow> (of_char c :: int) = of_char d"
  by simp

lemma toLowerChar_eq_iff:
  assumes "\<not> (65 \<le> (of_char b :: int) \<and> (of_char b :: int) \<le> 90)"
  shows "toLowerChar a = b \<longleftrightarrow> a = b \<or> a = toUpperChar b"
  using assms
  unfolding char_eq_int [of "toLowerChar a"] char_eq_int [of a b] char_eq_int [of a "toUpperChar b"]
    of_char_toLowerChar of_char_toUpperChar
  by (auto split: if_splits)

lemma ToLower_eq_iff: "noCapitals t \<Longrightarrow> ToLower s = t \<longleftrightarrow> equalFold s t"
proof (induction s arbitrary: t)
  case Nil
  then show ?case by (auto simp: ToLower_def equalFold_def)
next
  case (Cons a s)
  show ?case
  proof (cases t)
    case Nil
    then show ?thesis by (simp add: ToLower_def equalFold_def)
  next
    case (Cons b t')
    with Cons.prems have nb: "\<not> (65 \<le> (of_char b :: int) \<and> (of_char b :: int) \<le> 90)"
      and nt: "noCapitals t'" by (simp_all add: noCapitals_def)
    from Cons.IH [OF nt] have "ToLower s = t' \<longleftrightarrow> equalFold s t'" .
    then show ?thesis using Cons toLowerChar_eq_iff [OF nb, of a]
      by (simp add: ToLower_def equalFold_def)
  qed
qed

lemma keyword_noCapitals:
  "noCapitals ''auto''" "noCapitals ''true''" "noCapitals ''yes''" "noCapitals ''y''"
  "noCapitals ''1''" "noCapitals ''false''" "noCapitals ''no''" "noCapitals ''n''"
  "noCapitals ''0''"
  by (simp_all add: noCapitals_def)

lemma equalFold_length: "equalFold s t \<Longrightarrow> length s = length t"
  by (simp add: equalFold_def list_all2_lengthD)

lemma encryptionMode_cases:
  "encryptionMode flag =
     (if equalFold flag ''auto'' then Some EncryptionAuto
      else if equalFold flag ''true'' \<or> equalFold flag ''yes'' \<or> equalFold flag ''y'' \<or>
              equalFold flag ''1'' then Some EncryptionOn
      else if equalFold flag ''false'' \<or> equalFold flag ''no'' \<or> equalFold flag ''n'' \<or>
              equalFold flag ''0'' then Some EncryptionOff
      else None)"
  unfolding encryptionMode_def Let_def
  by (simp only: ToLower_eq_iff [OF keyword_noCapitals(1)] ToLower_eq_iff [OF keyword_noCapitals(2)]
        ToLower_eq_iff [OF keyword_noCapitals(3)] ToLower_eq_iff [OF keyword_noCapitals(4)]
        ToLower_eq_iff [OF keyword_noCapitals(5)] ToLower_eq_iff [OF keyword_noCapitals(6)]
        ToLower_eq_iff [OF keyword_noCapitals(7)] ToLower_eq_iff [OF keyword_noCapitals(8)]
        ToLower_eq_iff [OF keyword_noCapitals(9)])

lemma equalFold_disjoint:
  "equalFold s ''auto'' \<Longrightarrow> \<not> equalFold s ''true'' \<and> \<not> equalFold s ''yes'' \<and> \<not> equalFold s ''y''
     \<and> \<not> equalFold s ''1'' \<and> \<not> equalFold s ''false'' \<and> \<not> equalFold s ''no''
     \<and> \<not> equalFold s ''n'' \<and> \<not> equalFold s ''0''"
  "equalFold s ''true'' \<or> equalFold s ''yes'' \<or> equalFold s ''y'' \<or> equalFold s ''1'' \<Longrightarrow>
     \<not> equalFold s ''false'' \<and> \<not> equalFold s ''no'' \<and> \<not> equalFold s ''n'' \<and> \<not> equalFold s ''0''"
  unfolding ToLower_eq_iff [OF keyword_noCapitals(1), symmetric]
    ToLower_eq_iff [OF keyword_noCapitals(2), symmetric]
    ToLower_eq_iff [OF keyword_noCapitals(3), symmetric]
    ToLower_eq_iff [OF keyword_noCapitals(4), symmetric]
    ToLower_eq_iff [OF keyword_noCapitals(5), symmetric]
    ToLower_eq_iff [OF keyword_noCapitals(6), symmetric]
    ToLower_eq_iff [OF keyword_noCapitals(7), symmetric]
    ToLower_eq_iff [OF keyword_noCapitals(8), symmetric]
    ToLower_eq_iff [OF keyword_noCapitals(9), symmetric]
  by auto

lemma main_aborts_on_encryption:
  assumes "encryptionMode (fEncryptionMode fl) = None"
  shows "\<exists>evs msg. main w fl = (evs, Fatal msg) \<and> filter connects evs = []"
  using assms
  by (cases "NewOutput w (fOutputFormat fl)")
     (simp_all add: main_def main_steps_def startup_def andThen_def)

lemma eq_char_of_iff: "c = char_of n \<longleftrightarrow> take_bit 8 (n::int) = of_char c"
  using char_of_eq_iff [of n c] by auto

lemma switch_cases:
  assumes "x = (if A then Some EncryptionAuto else if B then Some EncryptionOn
                else if C then Some EncryptionOff else None)"
      and "A \<Longrightarrow> \<not> B \<and> \<not> C" and "B \<Longrightarrow> \<not> C"
  shows "(x = Some EncryptionAuto \<longleftrightarrow> A) \<and> (x = Some EncryptionOn \<longleftrightarrow> B) \<and>
         (x = Some EncryptionOff \<longleftrightarrow> C) \<and> (x = None \<longleftrightarrow> \<not> (A \<or> B \<or> C))"
  using assms by (cases A; cases B; cases C) simp_all

lemma defineVariables_Inr:
  assumes "defineVariables pf m ds = Inr vars" "distinct (map fst ds)"
  shows "(\<forall>(k, v)\<in>set ds.
            case ParseInt64 v of
              Some i \<Rightarrow> vars k = Some (IntVar i)
            | None \<Rightarrow> (\<exists>f. pf v = Inr f \<and> vars k = Some (FloatVar f))) \<and>
         (\<forall>k. k \<notin> fst ` set ds \<longrightarrow> vars k = m k)"
  using assms
proof (induction ds arbitrary: m)
  case Nil
  then show ?case by simp
next
  case (Cons d ds)
  obtain k v where d: "d = (k, v)" by (cases d)
  from Cons.prems(2) d have dist: "distinct (map fst ds)" and knew: "k \<notin> fst ` set ds" by auto
  show ?case
  proof (cases "ParseInt64 v")
    case (Some i)
    with Cons.prems(1) d have r: "defineVariables pf (m(k \<mapsto> IntVar i)) ds = Inr vars" by simp
    from Cons.IH [OF r dist] knew Some d show ?thesis by auto
  next
    case None
    with Cons.prems(1) d obtain f where f: "pf v = Inr f"
      and r: "defineVariables pf (m(k \<mapsto> FloatVar f)) ds = Inr vars"
      by (auto split: sum.splits)
    from Cons.IH [OF r dist] knew None f d show ?thesis by auto
  qed
qed

lemma defineVariables_isl:
  "isl (defineVariables pf m ds) \<longleftrightarrow> (\<exists>(k, v)\<in>set ds. ParseInt64 v = None \<and> isl (pf v))"
proof (induction ds arbitrary: m)
  case Nil
  then show ?case by simp
next
  case (Cons d ds)
  obtain k v where d: "d = (k, v)" by (cases d)
  show ?case using Cons.IH d
    by (cases "ParseInt64 v"; cases "pf v") auto
qed

lemma main_aborts_on_defines:
  assumes "isl (seedVariables w fl)"
  shows "\<exists>evs msg. main w fl = (evs, Fatal msg) \<and> filter readsScript evs = [] \<and>
           filter startsWorkers evs = []"
proof -
  from assms obtain e where e: "seedVariables w fl = Inl e" by (cases "seedVariables w fl") auto
  show ?thesis
    by (cases "NewOutput w (fOutputFormat fl)"; cases "encryptionMode (fEncryptionMode fl)";
        cases "NewDriver w (fAddress fl) (fUser fl) (fPassword fl) (the (encryptionMode (fEncryptionMode fl)))")
       (simp_all add: main_def main_steps_def startup_def andThen_def e)
qed

lemma createScript_events:
  "createScript w p wt = (evs, r) \<Longrightarrow> filter initialises evs = [] \<and> filter startsWorkers evs = []"
  by (auto simp: createScript_def split: if_splits sum.splits)

lemma loadScript_events:
  "loadScript w p = (evs, r) \<Longrightarrow> filter initialises evs = [] \<and> filter startsWorkers evs = []"
  by (auto simp: loadScript_def split: sum.splits prod.splits dest: createScript_events)

lemma loadScripts_events:
  "loadScripts w ps acc = (evs, r) \<Longrightarrow> filter initialises evs = [] \<and> filter startsWorkers evs = []"
proof (induction ps arbitrary: acc evs r)
  case Nil
  then show ?case by simp
next
  case (Cons p ps)
  obtain e1 r1 where l: "loadScript w p = (e1, r1)" by (cases "loadScript w p")
  note a = loadScript_events [OF l]
  show ?case
  proof (cases r1)
    case (Inl e)
    with Cons.prems l a show ?thesis by simp
  next
    case (Inr script)
    obtain e2 r2 where l2: "loadScripts w ps (acc @ [script]) = (e2, r2)"
      by (cases "loadScripts w ps (acc @ [script])")
    from Cons.IH [OF l2] Cons.prems l Inr l2 a show ?thesis by auto
  qed
qed

lemma startup_events:
  "startup w fl = (evs, r) \<Longrightarrow> filter initialises evs = [] \<and> filter startsWorkers evs = []"
proof -
  assume a: "startup w fl = (evs, r)"
  obtain e2 r2 where l: "loadScripts w (fWorkloads fl) [] = (e2, r2)"
    by (cases "loadScripts w (fWorkloads fl) []")
  note b = loadScripts_events [OF l]
  from a b l show ?thesis
    by (cases "NewOutput w (fOutputFormat fl)"; cases "encryptionMode (fEncryptionMode fl)";
        cases "NewDriver w (fAddress fl) (fUser fl) (fPassword fl) (the (encryptionMode (fEncryptionMode fl)))";
        cases "seedVariables w fl"; cases r2)
       (auto simp: startup_def andThen_def)
qed

lemma initWorkload_builtin:
  "''builtin:tpcb-like'' \<in> set paths \<Longrightarrow>
     initWorkload w paths scale =
       ([InitTPCBLikeCalled scale], (case InitTPCBLike w scale of Some e \<Rightarrow> Inl e | None \<Rightarrow> Inr ()))"
  by (induction paths) auto

lemma initWorkload_other:
  "''builtin:tpcb-like'' \<notin> set paths \<Longrightarrow> initWorkload w paths scale = ([], Inr ())"
  by (induction paths) auto

lemma main_with_init:
  assumes "fInitMode fl" "''builtin:tpcb-like'' \<in> set (fWorkloads fl)"
  shows "main w fl =
     (case startup w fl of
        (pre, Inl e) \<Rightarrow> (pre, Fatal e)
      | (pre, Inr wrk) \<Rightarrow>
          (case InitTPCBLike w (fScale fl) of
             Some e \<Rightarrow> (pre @ [InitTPCBLikeCalled (fScale fl)], Fatal e)
           | None \<Rightarrow>
               (pre @ [InitTPCBLikeCalled (fScale fl)] @ benchmarkEvents w fl,
                Exit (case runBenchmark_error w of Some e \<Rightarrow> 1 | None \<Rightarrow> 0))))"
  using assms
  by (auto simp: main_def main_steps_def andThen_def initWorkload_builtin benchmarkEvents_def
        split: prod.splits sum.splits option.splits)

lemma Split_no_sep: "sep \<notin> set s \<Longrightarrow> Split s sep = [s]"
  by (induction s) auto

lemma Split_sep: "sep \<notin> set p \<Longrightarrow> Split (p @ sep # t) sep = p # Split t sep"
  by (induction p) auto

lemma workloadWeight_plain: "CHR ''@'' \<notin> set path \<Longrightarrow> workloadWeight path = Inr (path, 1)"
  by (simp add: workloadWeight_def Split_no_sep)

lemma workloadWeight_suffix:
  assumes "CHR ''@'' \<notin> set path" "CHR ''@'' \<notin> set t"
  shows "workloadWeight (path @ ''@'' @ t) =
           (case Atoi t of
              None \<Rightarrow> Inl (''Failed to parse weight; value after @ symbol for workload weight must be an integer: '' @ path @ ''@'' @ t)
            | Some weight \<Rightarrow> Inr (path, weight))"
proof -
  have "Split (path @ ''@'' @ t) (CHR ''@'') = [path, t]"
    using Split_sep [OF assms(1), of t] Split_no_sep [OF assms(2)] by simp
  then show ?thesis by (cases "Atoi t") (simp_all add: workloadWeight_def)
qed

lemma parseDigits_append:
  "parseDigits (xs @ ys) a = (case parseDigits xs a of None \<Rightarrow> None | Some b \<Rightarrow> parseDigits ys b)"
  by (induction xs arbitrary: a) (auto split: option.splits)

lemma digitVal_digit: "0 \<le> d \<Longrightarrow> d \<le> 9 \<Longrightarrow> digitVal (char_of (48 + d)) = Some d"
  by (simp add: digitVal_def Let_def)

declare decimal.simps [simp del]

lemma parseDigits_decimal: "0 \<le> n \<Longrightarrow> parseDigits (decimal n) 0 = Some n"
proof (induction n rule: decimal.induct)
  case (1 n)
  show ?case
  proof (cases "n < 10")
    case True
    then have "decimal n = [char_of (48 + n)]" by (subst decimal.simps) simp
    with True "1.prems" show ?thesis by (simp add: digitVal_digit)
  next
    case False
    then have d: "decimal n = decimal (n div 10) @ [char_of (48 + n mod 10)]"
      by (subst decimal.simps) simp
    from False "1.prems" have "parseDigits (decimal (n div 10)) 0 = Some (n div 10)"
      by (intro "1.IH") simp_all
    then show ?thesis
      by (simp add: d parseDigits_append digitVal_digit)
  qed
qed

lemma decimal_digits:
  "0 \<le> n \<Longrightarrow> \<forall>c\<in>set (decimal n). 48 \<le> (of_char c :: int) \<and> (of_char c :: int) \<le> 57"
proof (induction n rule: decimal.induct)
  case (1 n)
  show ?case
  proof (cases "n < 10")
    case True
    then have "decimal n = [char_of (48 + n)]" by (subst decimal.simps) simp
    with True "1.prems" show ?thesis by simp
  next
    case False
    then have d: "decimal n = decimal (n div 10) @ [char_of (48 + n mod 10)]"
      by (subst decimal.simps) simp
    from False "1.prems" have "\<forall>c\<in>set (decimal (n div 10)). 48 \<le> (of_char c :: int) \<and> (of_char c :: int) \<le> 57"
      by (intro "1.IH") simp_all
    moreover have "48 \<le> (of_char (char_of (48 + n mod 10)) :: int) \<and>
        (of_char (char_of (48 + n mod 10)) :: int) \<le> 57"
    proof -
      have "0 \<le> n mod 10" "n mod 10 < 10" by simp_all
      then show ?thesis by simp
    qed
    ultimately show ?thesis by (simp add: d)
  qed
qed

lemma decimal_nonempty: "decimal n \<noteq> []"
  by (subst decimal.simps) simp

lemma Atoi_decimal:
  assumes "0 \<le> n" "n < 2 ^ 63"
  shows "Atoi (decimal n) = Some n"
proof -
  obtain c cs where s: "decimal n = c # cs" using decimal_nonempty [of n] by (cases "decimal n") auto
  from decimal_digits [OF assms(1)] s have "48 \<le> (of_char c :: int)" by simp
  then have "c \<noteq> CHR ''-''" "c \<noteq> CHR ''+''" by auto
  then show ?thesis
    using parseDigits_decimal [OF assms(1)] assms s
    by (simp add: Atoi_def ParseInt64_def)
qed

lemma decimal_no_at: "0 \<le> n \<Longrightarrow> CHR ''@'' \<notin> set (decimal n)"
  using decimal_digits [of n] by fastforce

lemma loadScripts_fails:
  "p \<in> set ps \<Longrightarrow> loadScript w p = ([], Inl e) \<Longrightarrow> isl (snd (loadScripts w ps acc))"
proof (induction ps arbitrary: acc)
  case Nil
  then show ?case by simp
next
  case (Cons q ps)
  show ?case
  proof (cases "loadScript w q")
    case (Pair e1 r1)
    show ?thesis
    proof (cases r1)
      case (Inl x)
      with Pair show ?thesis by simp
    next
      case (Inr script)
      with Pair Cons.prems have "p \<in> set ps" by auto
      from Cons.IH [OF this Cons.prems(2), of "acc @ [script]"] Pair Inr show ?thesis
        by (cases "loadScripts w ps (acc @ [script])") simp
    qed
  qed
qed

lemma startup_fails_on_scripts:
  assumes "isl (snd (loadScripts w (fWorkloads fl) []))"
  shows "isl (snd (startup w fl))"
proof -
  obtain e2 x where l: "loadScripts w (fWorkloads fl) [] = (e2, Inl x)"
    using assms by (cases "loadScripts w (fWorkloads fl) []"; cases "snd (loadScripts w (fWorkloads fl) [])") auto
  show ?thesis
    by (cases "NewOutput w (fOutputFormat fl)"; cases "encryptionMode (fEncryptionMode fl)";
        cases "NewDriver w (fAddress fl) (fUser fl) (fPassword fl) (the (encryptionMode (fEncryptionMode fl)))";
        cases "seedVariables w fl")
       (simp_all add: startup_def andThen_def l)
qed

lemma main_fatal_on_startup:
  assumes "isl (snd (startup w fl))"
  shows "\<exists>evs msg. main w fl = (evs, Fatal msg) \<and> filter startsWorkers evs = []"
proof -
  obtain pre e where s: "startup w fl = (pre, Inl e)"
    using assms by (cases "startup w fl"; cases "snd (startup w fl)") auto
  from startup_events [OF s] s show ?thesis
    by (simp add: main_def main_steps_def andThen_def)
qed

section \<open>Properties of the start-up\<close>

text \<open>
  Claim C10. The encryption flag is compared without regard to the case of its letters:
  \<open>auto\<close> selects automatic encryption; \<open>true\<close>, \<open>yes\<close>, \<open>y\<close> and \<open>1\<close> select
  encryption on; \<open>false\<close>, \<open>no\<close>, \<open>n\<close> and \<open>0\<close> select encryption off; with any
  other value the run ends in \<open>log.Fatal\<close> and \<open>NewDriver\<close> has not been called.
\<close>

theorem encryption_flag_case_insensitive:
  "(encryptionMode flag = Some EncryptionAuto \<longleftrightarrow> equalFold flag ''auto'') \<and>
   (encryptionMode flag = Some EncryptionOn \<longleftrightarrow>
      equalFold flag ''true'' \<or> equalFold flag ''yes'' \<or> equalFold flag ''y'' \<or>
      equalFold flag ''1'') \<and>
   (encryptionMode flag = Some EncryptionOff \<longleftrightarrow>
      equalFold flag ''false'' \<or> equalFold flag ''no'' \<or> equalFold flag ''n'' \<or>
      equalFold flag ''0'') \<and>
   (fEncryptionMode fl = flag \<and> encryptionMode flag \<noteq> Some EncryptionAuto \<and>
    encryptionMode flag \<noteq> Some EncryptionOn \<and> encryptionMode flag \<noteq> Some EncryptionOff \<longrightarrow>
    (\<exists>evs msg. main w fl = (evs, Fatal msg) \<and> filter connects evs = []))"
proof -
  define A where "A = equalFold flag ''auto''"
  define B where "B = (equalFold flag ''true'' \<or> equalFold flag ''yes'' \<or> equalFold flag ''y'' \<or>
      equalFold flag ''1'')"
  define C where "C = (equalFold flag ''false'' \<or> equalFold flag ''no'' \<or> equalFold flag ''n'' \<or>
      equalFold flag ''0'')"
  have e: "encryptionMode flag = (if A then Some EncryptionAuto else if B then Some EncryptionOn
                else if C then Some EncryptionOff else None)"
    unfolding A_def B_def C_def by (rule encryptionMode_cases)
  have d1: "A \<Longrightarrow> \<not> B \<and> \<not> C"
    unfolding A_def B_def C_def using equalFold_disjoint(1) [of flag] by blast
  have d2: "B \<Longrightarrow> \<not> C"
    unfolding B_def C_def using equalFold_disjoint(2) [of flag] by blast
  note sw = switch_cases [OF e d1 d2]
  have ab: "\<exists>evs msg. main w fl = (evs, Fatal msg) \<and> filter connects evs = []"
    if "fEncryptionMode fl = flag \<and> encryptionMode flag \<noteq> Some EncryptionAuto \<and>
        encryptionMode flag \<noteq> Some EncryptionOn \<and> encryptionMode flag \<noteq> Some EncryptionOff"
  proof -
    from that have "encryptionMode (fEncryptionMode fl) = None"
      by (cases "encryptionMode flag") (auto intro: EncryptionMode.exhaust)
    then show ?thesis by (rule main_aborts_on_encryption)
  qed
  from sw ab show ?thesis unfolding A_def B_def C_def by blast
qed

theorem encryption_flag_case_insensitive_witness:
  "encryptionMode ''Auto'' = Some EncryptionAuto \<and> encryptionMode ''YES'' = Some EncryptionOn \<and>
   encryptionMode ''n'' = Some EncryptionOff \<and>
   (\<exists>evs msg. main sample_world (sample_flags\<lparr>fEncryptionMode := ''maybe''\<rparr>) = (evs, Fatal msg) \<and>
      filter connects evs = [])"
proof -
  have 1: "equalFold ''Auto'' ''auto''" "equalFold ''YES'' ''yes''" "equalFold ''n'' ''n''"
    by (simp_all add: equalFold_def toUpperChar_def eq_char_of_iff)
  have 2: "encryptionMode ''maybe'' = None"
    by (simp add: encryptionMode_def ToLower_def toLowerChar_def)
  have 3: "fEncryptionMode (sample_flags\<lparr>fEncryptionMode := ''maybe''\<rparr>) = ''maybe''" by simp
  from encryption_flag_case_insensitive [of "''Auto''"] 1
  have a: "encryptionMode ''Auto'' = Some EncryptionAuto" by blast
  from encryption_flag_case_insensitive [of "''YES''"] 1
  have b: "encryptionMode ''YES'' = Some EncryptionOn" by blast
  from encryption_flag_case_insensitive [of "''n''"] 1
  have c: "encryptionMode ''n'' = Some EncryptionOff" by blast
  from encryption_flag_case_insensitive
         [of "''maybe''" "sample_flags\<lparr>fEncryptionMode := ''maybe''\<rparr>" sample_world] 2 3
  have d: "\<exists>evs msg. main sample_world (sample_flags\<lparr>fEncryptionMode := ''maybe''\<rparr>) = (evs, Fatal msg) \<and>
      filter connects evs = []" by simp
  from a b c d show ?thesis by blast
qed

text \<open>
  Claim C9, as the code has it. The defines are the entries of a Go map, so their names
  are distinct. Each value is stored as an integer when \<open>ParseInt\<close> accepts it and
  otherwise as a float when \<open>ParseFloat\<close> accepts it, so no variable holds a string; a
  value that neither accepts ends the run in \<open>log.Fatal\<close> before a script is read or
  parsed and before the workers start. The variables always contain \<open>scale\<close>: the
  integer of the scale flag unless a define named \<open>scale\<close> replaces it.
\<close>

theorem defines_integer_then_float:
  assumes "distinct (map fst (fVariables fl))"
  shows "(isl (seedVariables w fl) \<longleftrightarrow>
            (\<exists>(k, v)\<in>set (fVariables fl). ParseInt64 v = None \<and> isl (ParseFloat w v))) \<and>
         (isl (seedVariables w fl) \<longrightarrow>
            (\<exists>evs msg. main w fl = (evs, Fatal msg) \<and> filter readsScript evs = [] \<and>
               filter startsWorkers evs = [])) \<and>
         (\<forall>vars. seedVariables w fl = Inr vars \<longrightarrow>
            (\<forall>(k, v)\<in>set (fVariables fl).
               case ParseInt64 v of
                 Some i \<Rightarrow> vars k = Some (IntVar i)
               | None \<Rightarrow> (\<exists>f. ParseFloat w v = Inr f \<and> vars k = Some (FloatVar f))) \<and>
            (''scale'' \<notin> fst ` set (fVariables fl) \<longrightarrow> vars ''scale'' = Some (IntVar (fScale fl))) \<and>
            (\<exists>x. vars ''scale'' = Some x))"
proof (intro conjI allI impI)
  show "isl (seedVariables w fl) \<longleftrightarrow>
            (\<exists>(k, v)\<in>set (fVariables fl). ParseInt64 v = None \<and> isl (ParseFloat w v))"
    unfolding seedVariables_def by (rule defineVariables_isl)
  show "\<exists>evs msg. main w fl = (evs, Fatal msg) \<and> filter readsScript evs = [] \<and>
               filter startsWorkers evs = []" if "isl (seedVariables w fl)"
    using that by (rule main_aborts_on_defines)
next
  fix vars assume v: "seedVariables w fl = Inr vars"
  note D = defineVariables_Inr [OF v [unfolded seedVariables_def] assms]
  from D show g1: "\<forall>(k, v)\<in>set (fVariables fl).
               case ParseInt64 v of
                 Some i \<Rightarrow> vars k = Some (IntVar i)
               | None \<Rightarrow> (\<exists>f. ParseFloat w v = Inr f \<and> vars k = Some (FloatVar f))"
    by blast
  from D show g2: "vars ''scale'' = Some (IntVar (fScale fl))"
    if "''scale'' \<notin> fst ` set (fVariables fl)" using that by simp
  show "\<exists>x. vars ''scale'' = Some x"
  proof (cases "''scale'' \<in> fst ` set (fVariables fl)")
    case True
    then obtain v where "(''scale'', v) \<in> set (fVariables fl)" by auto
    with g1 have "case ParseInt64 v of
                 Some i \<Rightarrow> vars ''scale'' = Some (IntVar i)
               | None \<Rightarrow> (\<exists>f. ParseFloat w v = Inr f \<and> vars ''scale'' = Some (FloatVar f))"
      by fastforce
    then show ?thesis by (cases "ParseInt64 v") auto
  next
    case False
    with g2 show ?thesis by simp
  qed
qed

theorem defines_integer_then_float_witness:
  "seedVariables sample_world (sample_flags\<lparr>fVariables := [(''n'', ''42''), (''x'', ''2.5'')]\<rparr>) =
     Inr [''scale'' \<mapsto> IntVar 1, ''n'' \<mapsto> IntVar 42, ''x'' \<mapsto> FloatVar (Finite False (5 / 2))] \<and>
   \<not> isl (seedVariables sample_world (sample_flags\<lparr>fVariables := [(''n'', ''42''), (''x'', ''2.5'')]\<rparr>)) \<and>
   isl (seedVariables sample_world (sample_flags\<lparr>fVariables := [(''n'', ''abc'')]\<rparr>))"
proof -
  let ?fl = "sample_flags\<lparr>fVariables := [(''n'', ''42''), (''x'', ''2.5'')]\<rparr>"
  let ?bad = "sample_flags\<lparr>fVariables := [(''n'', ''abc'')]\<rparr>"
  have d: "distinct (map fst (fVariables ?fl))" "distinct (map fst (fVariables ?bad))" by simp_all
  have p: "ParseInt64 ''42'' = Some 42" "ParseInt64 ''2.5'' = None" "ParseInt64 ''abc'' = None"
    by (simp_all add: ParseInt64_def digitVal_def)
  have 1: "seedVariables sample_world ?fl =
     Inr [''scale'' \<mapsto> IntVar 1, ''n'' \<mapsto> IntVar 42, ''x'' \<mapsto> FloatVar (Finite False (5 / 2))]"
    by (simp add: seedVariables_def p sample_world_def sample_flags_def)
  from defines_integer_then_float [OF d(1), of sample_world] p
  have 2: "\<not> isl (seedVariables sample_world ?fl)" by (simp add: sample_world_def)
  from defines_integer_then_float [OF d(2), of sample_world] p
  have 3: "isl (seedVariables sample_world ?bad)" by (simp add: sample_world_def)
  from 1 2 3 show ?thesis by blast
qed

text \<open>
  Claim C9 as stated fails in its last part: \<open>scale\<close> is not always an integer. The
  define \<open>scale=2.5\<close> replaces it by a float.
\<close>

theorem scale_not_always_integer:
  "seedVariables sample_world (sample_flags\<lparr>fVariables := [(''scale'', ''2.5'')]\<rparr>) =
     Inr [''scale'' \<mapsto> FloatVar (Finite False (5 / 2))]"
  by (simp add: seedVariables_def ParseInt64_def digitVal_def sample_world_def sample_flags_def)

text \<open>
  Claim C8, as the code has it. In init mode, when one of the workload arguments is
  exactly \<open>builtin:tpcb-like\<close>: the initialiser is never called more than once; it is
  called exactly once whenever the start-up succeeds; in a run that starts the workers
  its call comes before; and when it fails the run ends in \<open>log.Fatal\<close> with no
  worker started.
\<close>

theorem initializer_once_before_workers:
  assumes "fInitMode fl" "''builtin:tpcb-like'' \<in> set (fWorkloads fl)"
      and "main w fl = (evs, ending)"
  shows "length (filter initialises evs) \<le> 1 \<and>
         (\<forall>pre wrk. startup w fl = (pre, Inr wrk) \<longrightarrow>
            filter initialises evs = [InitTPCBLikeCalled (fScale fl)]) \<and>
         (filter startsWorkers evs \<noteq> [] \<longrightarrow>
            (\<exists>pre post. evs = pre @ [InitTPCBLikeCalled (fScale fl)] @ post \<and>
               filter startsWorkers pre = [] \<and> filter initialises post = [])) \<and>
         (\<forall>e. InitTPCBLike w (fScale fl) = Some e \<longrightarrow>
            filter startsWorkers evs = [] \<and> (\<exists>msg. ending = Fatal msg))"
proof -
  obtain pre r where s: "startup w fl = (pre, r)" by (cases "startup w fl")
  note ev = startup_events [OF s]
  note m = main_with_init [OF assms(1,2), of w, unfolded s assms(3)]
  have b: "filter initialises (benchmarkEvents w fl) = []"
    "filter startsWorkers (benchmarkEvents w fl) \<noteq> []"
    by (simp_all add: benchmarkEvents_def split: option.splits)
  show ?thesis
  proof (cases r)
    case (Inl e)
    with m ev s show ?thesis by simp
  next
    case (Inr wrk)
    show ?thesis
    proof (cases "InitTPCBLike w (fScale fl)")
      case (Some e)
      with m Inr ev s show ?thesis by simp
    next
      case None
      with m Inr have e: "evs = pre @ [InitTPCBLikeCalled (fScale fl)] @ benchmarkEvents w fl"
        by simp
      have "\<exists>pre post. evs = pre @ [InitTPCBLikeCalled (fScale fl)] @ post \<and>
               filter startsWorkers pre = [] \<and> filter initialises post = []"
        using e ev b(1) by blast
      with e ev b None s Inr show ?thesis by simp
    qed
  qed
qed

theorem initializer_once_before_workers_witness:
  "main sample_world (sample_flags\<lparr>fInitMode := True\<rparr>) =
     ([NewOutputCalled ''auto'',
       NewDriverCalled ''neo4j://localhost:7687'' ''neo4j'' ''neo4j'' EncryptionAuto,
       ParseCalled ''builtin:tpcp-like'' ''RETURN 0;'' 1, InitTPCBLikeCalled 1,
       RunBenchmarkCalled False 1 (Finite False 1), ReportThroughputCalled], Exit 0) \<and>
   length (filter initialises
     [NewOutputCalled ''auto'',
       NewDriverCalled ''neo4j://localhost:7687'' ''neo4j'' ''neo4j'' EncryptionAuto,
       ParseCalled ''builtin:tpcp-like'' ''RETURN 0;'' 1, InitTPCBLikeCalled 1,
       RunBenchmarkCalled False 1 (Finite False 1), ReportThroughputCalled]) \<le> 1"
proof -
  let ?fl = "sample_flags\<lparr>fInitMode := True\<rparr>"
  have a: "fInitMode ?fl" by simp
  have b: "''builtin:tpcb-like'' \<in> set (fWorkloads ?fl)" by (simp add: sample_flags_def)
  have m: "main sample_world ?fl =
     ([NewOutputCalled ''auto'',
       NewDriverCalled ''neo4j://localhost:7687'' ''neo4j'' ''neo4j'' EncryptionAuto,
       ParseCalled ''builtin:tpcp-like'' ''RETURN 0;'' 1, InitTPCBLikeCalled 1,
       RunBenchmarkCalled False 1 (Finite False 1), ReportThroughputCalled], Exit 0)"
    by (simp add: main_def main_steps_def startup_def andThen_def sample_world_def sample_flags_def
     encryptionMode_def ToLower_def toLowerChar_def char_of_eq_iff seedVariables_def loadScript_def
     workloadWeight_def createScript_def Atoi_def)
  from initializer_once_before_workers [OF a b m] m show ?thesis by blast
qed

text \<open>
  Claim C8 as stated fails: in init mode with a workload that is not the built-in one
  the run goes through to the benchmark and the initialiser is never called.
\<close>

theorem initializer_not_invoked_for_custom_workload:
  "fInitMode (sample_flags\<lparr>fInitMode := True, fWorkloads := [''custom.script'']\<rparr>) \<and>
   main sample_world (sample_flags\<lparr>fInitMode := True, fWorkloads := [''custom.script'']\<rparr>) =
     ([NewOutputCalled ''auto'',
       NewDriverCalled ''neo4j://localhost:7687'' ''neo4j'' ''neo4j'' EncryptionAuto,
       ReadFileCalled ''custom.script'', ParseCalled ''custom.script'' ''RETURN 1;'' 1,
       RunBenchmarkCalled False 1 (Finite False 1), ReportThroughputCalled], Exit 0)"
  by (simp add: main_def main_steps_def startup_def andThen_def sample_world_def sample_flags_def
     encryptionMode_def ToLower_def toLowerChar_def char_of_eq_iff seedVariables_def loadScript_def
     workloadWeight_def createScript_def)

text \<open>
  Claim C6, as the code has it. For a path without \<open>@\<close>: the argument \<open>path\<close> alone
  creates the script of \<open>path\<close> with weight 1; the argument \<open>path@N\<close>, with \<open>N\<close> the
  decimal numeral of an integer from 0 to \<open>2\<^sup>6\<^sup>3 - 1\<close>, creates it with weight \<open>N\<close>;
  creating the script of a readable file parses the content of the file under the name
  of the path with that weight; and a text after \<open>@\<close> that \<open>Atoi\<close> rejects ends the
  run in \<open>log.Fatal\<close> with no worker started.
\<close>

theorem workload_weight_suffix:
  assumes "CHR ''@'' \<notin> set path"
  shows "loadScript w path = createScript w path 1 \<and>
         (0 \<le> n \<and> n < 2 ^ 63 \<longrightarrow>
            loadScript w (path @ ''@'' @ decimal n) = createScript w path (word_of_int n) \<and>
            uint (word_of_int n :: 64 word) = n) \<and>
         (path \<noteq> ''builtin:tpcb-like'' \<and> ReadFile w path = Inr content \<longrightarrow>
            createScript w path weight =
              ([ReadFileCalled path, ParseCalled path content weight], Parse w path content weight)) \<and>
         (CHR ''@'' \<notin> set t \<and> Atoi t = None \<and> path @ ''@'' @ t \<in> set (fWorkloads fl) \<longrightarrow>
            (\<exists>evs msg. main w fl = (evs, Fatal msg) \<and> filter startsWorkers evs = []))"
proof (intro conjI impI)
  show "loadScript w path = createScript w path 1"
    by (simp add: loadScript_def workloadWeight_plain [OF assms])
next
  assume n: "0 \<le> n \<and> n < 2 ^ 63"
  then have "workloadWeight (path @ ''@'' @ decimal n) = Inr (path, n)"
    using workloadWeight_suffix [OF assms decimal_no_at, of n] by (simp add: Atoi_decimal)
  then show "loadScript w (path @ ''@'' @ decimal n) = createScript w path (word_of_int n)"
    by (simp add: loadScript_def)
  have "uint (word_of_int n :: 64 word) = take_bit 64 n" by (simp add: uint_word_of_int_eq)
  also have "\<dots> = n" using n by (intro take_bit_int_eq_self) simp_all
  finally show "uint (word_of_int n :: 64 word) = n" .
next
  assume "path \<noteq> ''builtin:tpcb-like'' \<and> ReadFile w path = Inr content"
  then show "createScript w path weight =
              ([ReadFileCalled path, ParseCalled path content weight], Parse w path content weight)"
    by (simp add: createScript_def)
next
  assume a: "CHR ''@'' \<notin> set t \<and> Atoi t = None \<and> path @ ''@'' @ t \<in> set (fWorkloads fl)"
  then have "\<exists>e. loadScript w (path @ ''@'' @ t) = ([], Inl e)"
    using workloadWeight_suffix [OF assms, of t] by (simp add: loadScript_def)
  then obtain e where "loadScript w (path @ ''@'' @ t) = ([], Inl e)" ..
  with a have "isl (snd (loadScripts w (fWorkloads fl) []))" by (intro loadScripts_fails) simp_all
  then have "isl (snd (startup w fl))" by (rule startup_fails_on_scripts)
  then show "\<exists>evs msg. main w fl = (evs, Fatal msg) \<and> filter startsWorkers evs = []"
    by (rule main_fatal_on_startup)
qed

theorem workload_weight_suffix_witness:
  "loadScript sample_world ''custom.script'' =
     ([ReadFileCalled ''custom.script'', ParseCalled ''custom.script'' ''RETURN 1;'' 1],
      Inr (''custom.script'', 1)) \<and>
   loadScript sample_world ''custom.script@3'' =
     ([ReadFileCalled ''custom.script'', ParseCalled ''custom.script'' ''RETURN 1;'' 3],
      Inr (''custom.script'', 3)) \<and>
   (\<exists>evs msg. main sample_world (sample_flags\<lparr>fWorkloads := [''custom.script@x'']\<rparr>) = (evs, Fatal msg) \<and>
      filter startsWorkers evs = [])"
proof -
  have a: "CHR ''@'' \<notin> set ''custom.script''" by simp
  have d: "decimal 3 = ''3''" by (simp add: decimal.simps char_of_eq_iff)
  have r: "''custom.script'' \<noteq> ''builtin:tpcb-like'' \<and>
           ReadFile sample_world ''custom.script'' = Inr ''RETURN 1;''"
    by (simp add: sample_world_def)
  have x: "CHR ''@'' \<notin> set ''x'' \<and> Atoi ''x'' = None \<and>
      ''custom.script'' @ ''@'' @ ''x'' \<in> set (fWorkloads (sample_flags\<lparr>fWorkloads := [''custom.script@x'']\<rparr>))"
    by (simp add: Atoi_def ParseInt64_def digitVal_def)
  have p: "Parse sample_world ''custom.script'' ''RETURN 1;'' wt = Inr (''custom.script'', wt)" for wt
    by (simp add: sample_world_def)
  note T = workload_weight_suffix [OF a, of sample_world _ "''RETURN 1;''" _ "''x''"
      "sample_flags\<lparr>fWorkloads := [''custom.script@x'']\<rparr>"]
  from T [of 3 1] r have 1: "loadScript sample_world ''custom.script'' =
     ([ReadFileCalled ''custom.script'', ParseCalled ''custom.script'' ''RETURN 1;'' 1],
      Inr (''custom.script'', 1))" by (simp add: p)
  from T [of 3 3] r d have 2: "loadScript sample_world ''custom.script@3'' =
     ([ReadFileCalled ''custom.script'', ParseCalled ''custom.script'' ''RETURN 1;'' 3],
      Inr (''custom.script'', 3))" by (simp add: p)
  from T [of 3 1] x have 3: "\<exists>evs msg. main sample_world (sample_flags\<lparr>fWorkloads := [''custom.script@x'']\<rparr>) = (evs, Fatal msg) \<and>
      filter startsWorkers evs = []" by blast
  from 1 2 3 show ?thesis by blast
qed

text \<open>
  Claim C6 as stated fails for a negative integer: \<open>Atoi\<close> accepts \<open>-1\<close> and the
  conversion to \<open>uint\<close> turns it into the weight \<open>2\<^sup>6\<^sup>4 - 1\<close>.
\<close>

theorem negative_weight_wraps:
  "Atoi ''-1'' = Some (- 1) \<and>
   loadScript sample_world ''custom.script@-1'' =
     ([ReadFileCalled ''custom.script'', ParseCalled ''custom.script'' ''RETURN 1;'' 18446744073709551615],
      Inr (''custom.script'', 18446744073709551615)) \<and>
   uint (18446744073709551615 :: 64 word) = 18446744073709551615"
  by (simp add: Atoi_def ParseInt64_def digitVal_def loadScript_def workloadWeight_def
        createScript_def sample_world_def)

end
